theory Spec2Isabelle
  imports Complex_Main "HOL-Library.Product_Lexorder" "HOL-Library.Multiset"
begin

section \<open>MiniVecDB: the vector storage and the IVF index\<close>

text \<open>
  A shallow embedding of the two classes of MiniVecDB, \<^verbatim>\<open>VectorStorage\<close> and
  \<^verbatim>\<open>IVFIndex\<close>, and of the functions they call. A numpy array of numbers is a list of
  reals (floating point is idealised as exact real arithmetic), a Python \<^verbatim>\<open>int\<close> is an
  \<open>int\<close>, a Python \<^verbatim>\<open>dict\<close> is an association list in insertion order with distinct keys, a
  raised exception is an \<open>Inl\<close> value. A method that mutates its object returns the outcome
  paired with the object afterwards, so that what an exception leaves behind is visible.
\<close>

subsection \<open>Python values\<close>

type_synonym vector = "real list"

text \<open>A JSON-serialisable value: what metadata is, and what a saved file holds.\<close>

datatype json =
    JNull
  | JBool bool
  | JInt int
  | JFloat real
  | JStr string
  | JArr "json list"
  | JObj "(string \<times> json) list"

datatype error =
    AssertionError \<comment> \<open>\<^verbatim>\<open>fc.test_eq\<close> in \<^verbatim>\<open>add\<close>\<close>
  | KeyError \<comment> \<open>a dictionary read at an absent key\<close>
  | ValueError string \<comment> \<open>\<^verbatim>\<open>raise ValueError(msg)\<close>, with its message\<close>
  | IntLiteralError \<comment> \<open>the \<^verbatim>\<open>ValueError\<close> of \<^verbatim>\<open>int(k)\<close> on a malformed literal\<close>
  | NumpyShapeError \<comment> \<open>the \<^verbatim>\<open>ValueError\<close> of numpy on operands whose shapes do not fit\<close>
  | ZeroDivisionError
  | IndexError
  | TypeError
  | AttributeError
  | FileNotFoundError

text \<open>Sequencing: the first exception ends the computation.\<close>

definition and_then :: "'e + 'a \<Rightarrow> ('a \<Rightarrow> 'e + 'b) \<Rightarrow> 'e + 'b" where
  "and_then r f = (case r of Inl e \<Rightarrow> Inl e | Inr x \<Rightarrow> f x)"

subsection \<open>Dictionaries\<close>

text \<open>
  A Python dictionary keeps its keys in insertion order; assigning to a key that is present
  replaces the value in place, assigning to a new key appends.
\<close>

type_synonym ('k, 'v) dict = "('k \<times> 'v) list"

definition keys :: "('k, 'v) dict \<Rightarrow> 'k list" where
  "keys d = map fst d"

primrec dict_set :: "'k \<Rightarrow> 'v \<Rightarrow> ('k, 'v) dict \<Rightarrow> ('k, 'v) dict" where
  "dict_set k v [] = [(k, v)]"
| "dict_set k v (p # ps) = (if fst p = k then (k, v) # ps else p # dict_set k v ps)"

definition dict_pop :: "'k \<Rightarrow> ('k, 'v) dict \<Rightarrow> ('k, 'v) dict" where
  "dict_pop k d = filter (\<lambda>p. fst p \<noteq> k) d"

definition dict_get :: "('k, 'v) dict \<Rightarrow> 'k \<Rightarrow> error + 'v" where
  "dict_get d k = (case map_of d k of None \<Rightarrow> Inl KeyError | Some v \<Rightarrow> Inr v)"

text \<open>A dictionary built by inserting items one after the other, as a comprehension does.\<close>

definition dict_of_items :: "('k \<times> 'v) list \<Rightarrow> ('k, 'v) dict" where
  "dict_of_items items = foldl (\<lambda>d (k, v). dict_set k v d) [] items"

subsection \<open>VectorStorage\<close>

text \<open>
  \<^verbatim>\<open>
  class VectorStorage:
      def __init__(self, dimension):
          fc.store_attr()
          self.vectors = {}  # id -> vector
          self.metadatas = {}  # id -> metadata
          self.next_id = 0
  \<close>
\<close>

record VectorStorage =
  dimension :: int
  vectors :: "(int, vector) dict"
  metadatas :: "(int, json) dict"
  next_id :: int

definition VectorStorage_init :: "int \<Rightarrow> VectorStorage" where
  "VectorStorage_init d = \<lparr>dimension = d, vectors = [], metadatas = [], next_id = 0\<rparr>"

text \<open>
  \<^verbatim>\<open>
      def add(self, vector, metadata):
          fc.test_eq(self.dimension, len(vector))
          current_id = self.next_id
          self.vectors[current_id] = vector
          self.metadatas[current_id] = metadata
          self.next_id += 1
          return current_id
  \<close>
\<close>

definition add :: "vector \<Rightarrow> json \<Rightarrow> VectorStorage \<Rightarrow> (error + int) \<times> VectorStorage" where
  "add vector metadata self =
     (if dimension self \<noteq> int (length vector) then (Inl AssertionError, self)
      else let current_id = next_id self in
        (Inr current_id,
         self\<lparr>vectors := dict_set current_id vector (vectors self),
              metadatas := dict_set current_id metadata (metadatas self),
              next_id := next_id self + 1\<rparr>))"

text \<open>
  \<^verbatim>\<open>
      def get(self, id): return (self.vectors[id], self.metadatas[id])
  \<close>
\<close>

definition get :: "VectorStorage \<Rightarrow> int \<Rightarrow> error + (vector \<times> json)" where
  "get self i =
     (case dict_get (vectors self) i of
        Inl e \<Rightarrow> Inl e
      | Inr v \<Rightarrow> (case dict_get (metadatas self) i of
                    Inl e \<Rightarrow> Inl e
                  | Inr m \<Rightarrow> Inr (v, m)))"

text \<open>
  \<^verbatim>\<open>
      def delete(self, id):
          if id not in self.vectors: return False
          self.vectors.pop(id)
          self.metadatas.pop(id)
          return True
  \<close>
  \<^verbatim>\<open>pop\<close> without a default raises on an absent key; the vector is gone by then.
\<close>

definition delete :: "int \<Rightarrow> VectorStorage \<Rightarrow> (error + bool) \<times> VectorStorage" where
  "delete i self =
     (if i \<notin> set (keys (vectors self)) then (Inr False, self)
      else let self1 = self\<lparr>vectors := dict_pop i (vectors self)\<rparr> in
        if i \<notin> set (keys (metadatas self1)) then (Inl KeyError, self1)
        else (Inr True, self1\<lparr>metadatas := dict_pop i (metadatas self1)\<rparr>))"

text \<open>
  \<^verbatim>\<open>
      def get_all(self): return fc.L((key, self.vectors[key], self.metadatas[key]) for key in self.vectors)
  \<close>
\<close>

fun get_all_items :: "(int, json) dict \<Rightarrow> (int, vector) dict \<Rightarrow> error + (int \<times> vector \<times> json) list" where
  "get_all_items ms [] = Inr []"
| "get_all_items ms ((key, v) # rest) =
     (case dict_get ms key of
        Inl e \<Rightarrow> Inl e
      | Inr m \<Rightarrow> (case get_all_items ms rest of
                    Inl e \<Rightarrow> Inl e
                  | Inr out \<Rightarrow> Inr ((key, v, m) # out)))"

definition get_all :: "VectorStorage \<Rightarrow> error + (int \<times> vector \<times> json) list" where
  "get_all self = get_all_items (metadatas self) (vectors self)"

subsection \<open>Sequences of store operations\<close>

datatype store_op = Add vector json | Delete int

datatype outcome = Added int | Deleted bool | Raised error

fun apply_op :: "store_op \<Rightarrow> VectorStorage \<Rightarrow> outcome \<times> VectorStorage" where
  "apply_op (Add v m) s =
     (case add v m s of (Inl e, s') \<Rightarrow> (Raised e, s') | (Inr i, s') \<Rightarrow> (Added i, s'))"
| "apply_op (Delete i) s =
     (case delete i s of (Inl e, s') \<Rightarrow> (Raised e, s') | (Inr b, s') \<Rightarrow> (Deleted b, s'))"

text \<open>The outcomes of a sequence of calls, in call order, and the store afterwards.\<close>

fun run_ops :: "store_op list \<Rightarrow> VectorStorage \<Rightarrow> outcome list \<times> VectorStorage" where
  "run_ops [] s = ([], s)"
| "run_ops (c # cs) s =
     (let (r, s1) = apply_op c s; (rs, s2) = run_ops cs s1 in (r # rs, s2))"

text \<open>The ids that the \<^verbatim>\<open>add\<close> calls of a run returned, in call order.\<close>

fun added_ids :: "outcome list \<Rightarrow> int list" where
  "added_ids [] = []"
| "added_ids (Added i # rs) = i # added_ids rs"
| "added_ids (_ # rs) = added_ids rs"

subsection \<open>Persistence\<close>

text \<open>
  \<^verbatim>\<open>str(k)\<close> of an integer: its decimal digits, after a minus sign when it is negative.
  (CPython refuses conversions of more than 4300 digits; no id that \<^verbatim>\<open>add\<close> or \<^verbatim>\<open>load\<close>
  can produce is that long, and the limit is left out.)
\<close>

definition digit_char :: "nat \<Rightarrow> char" where
  "digit_char d = char_of (48 + d)"

fun digits_of :: "nat \<Rightarrow> string" where
  "digits_of n = (if n < 10 then [digit_char n] else digits_of (n div 10) @ [digit_char (n mod 10)])"

declare digits_of.simps [simp del]

definition py_str :: "int \<Rightarrow> string" where
  "py_str k = (if k < 0 then CHR ''-'' # digits_of (nat (- k)) else digits_of (nat k))"

text \<open>
  \<^verbatim>\<open>int(s)\<close> of a string, base 10: surrounding whitespace is dropped, one sign is allowed,
  then come decimal digits, where single underscores may stand between two digits. Anything
  else raises \<^verbatim>\<open>ValueError\<close>. Only ASCII is modelled.
\<close>

definition is_space :: "char \<Rightarrow> bool" where
  "is_space c = (let n = (of_char c :: nat) in (9 \<le> n \<and> n \<le> 13) \<or> (28 \<le> n \<and> n \<le> 32))"

definition is_digit :: "char \<Rightarrow> bool" where
  "is_digit c = (let n = (of_char c :: nat) in 48 \<le> n \<and> n \<le> 57)"

definition digit_val :: "char \<Rightarrow> nat" where
  "digit_val c = of_char c - 48"

definition strip :: "string \<Rightarrow> string" where
  "strip s = rev (dropWhile is_space (rev (dropWhile is_space s)))"

text \<open>The digits after the first one, with the value read so far.\<close>

fun parse_more :: "nat \<Rightarrow> string \<Rightarrow> nat option" where
  "parse_more acc [] = Some acc"
| "parse_more acc (c # cs) =
     (if is_digit c then parse_more (10 * acc + digit_val c) cs
      else if c = CHR ''_'' then
        (case cs of
           [] \<Rightarrow> None
         | d # ds \<Rightarrow> if is_digit d then parse_more (10 * acc + digit_val d) ds else None)
      else None)"

definition parse_nat :: "string \<Rightarrow> nat option" where
  "parse_nat s =
     (case s of
        [] \<Rightarrow> None
      | c # cs \<Rightarrow> if is_digit c then parse_more (digit_val c) cs else None)"

definition py_int :: "string \<Rightarrow> error + int" where
  "py_int s =
     (let parsed =
        (case strip s of
           [] \<Rightarrow> None
         | c # cs \<Rightarrow>
             if c = CHR ''-'' then map_option (\<lambda>n. - int n) (parse_nat cs)
             else if c = CHR ''+'' then map_option int (parse_nat cs)
             else map_option int (parse_nat (c # cs)))
      in case parsed of None \<Rightarrow> Inl IntLiteralError | Some k \<Rightarrow> Inr k)"

text \<open>
  The file system, as far as \<^verbatim>\<open>save\<close> and \<^verbatim>\<open>load\<close> see it: a path holds the JSON value
  that \<^verbatim>\<open>fc.dumps\<close> wrote and \<^verbatim>\<open>read_json\<close> parses. The text in between (how a number is
  printed and read back) belongs to the JSON library and is not modelled.
\<close>

type_synonym filesystem = "string \<Rightarrow> json option"

text \<open>\<^verbatim>\<open>v.tolist()\<close> and \<^verbatim>\<open>np.array(v)\<close>.\<close>

definition tolist :: "vector \<Rightarrow> json" where
  "tolist v = JArr (map JFloat v)"

fun number_of :: "json \<Rightarrow> real option" where
  "number_of (JFloat x) = Some x"
| "number_of (JInt i) = Some (of_int i)"
| "number_of _ = None"

text \<open>
  \<^verbatim>\<open>np.array\<close> accepts any value and \<^verbatim>\<open>load\<close> checks no types. Where Python would go on
  with a value that the typed store of this model cannot hold (a vector that is not a
  sequence of numbers, a dimension that is not an integer), the model stops with
  \<open>Unrepresentable\<close>; this is the boundary of the model and not an exception of the code.
\<close>

datatype load_error = Raises error | Unrepresentable

definition np_array :: "json \<Rightarrow> load_error + vector" where
  "np_array j =
     (case j of
        JArr js \<Rightarrow> (if list_all (\<lambda>x. number_of x \<noteq> None) js
                    then Inr (map (\<lambda>x. the (number_of x)) js) else Inl Unrepresentable)
      | _ \<Rightarrow> Inl Unrepresentable)"

text \<open>
  \<^verbatim>\<open>
      def save(self, filepath):
          data = {
              'dimension': self.dimension,
              'next_id': self.next_id,
              'vectors': {str(k): v.tolist() for k, v in self.vectors.items()},
              'metadatas': self.metadatas  # This should already be serializable
          }
          fc.Path(filepath).write_text(fc.dumps(data))
  \<close>
  \<^verbatim>\<open>self.metadatas\<close> has integer keys; the JSON encoder writes each as its decimal string.
\<close>

definition dumps_int_keyed :: "(int, json) dict \<Rightarrow> json" where
  "dumps_int_keyed d = JObj (map (\<lambda>(k, m). (py_str k, m)) d)"

definition save_data :: "VectorStorage \<Rightarrow> json" where
  "save_data self =
     JObj [(''dimension'', JInt (dimension self)),
           (''next_id'', JInt (next_id self)),
           (''vectors'', JObj (dict_of_items (map (\<lambda>(k, v). (py_str k, tolist v)) (vectors self)))),
           (''metadatas'', dumps_int_keyed (metadatas self))]"

definition save :: "string \<Rightarrow> VectorStorage \<Rightarrow> filesystem \<Rightarrow> filesystem" where
  "save filepath self fs = fs(filepath \<mapsto> save_data self)"

text \<open>
  \<^verbatim>\<open>
      @classmethod
      def load(cls, filepath):
          data = fc.Path(filepath).read_json()

          storage = cls(data['dimension'])
          storage.next_id = data['next_id']

          storage.vectors = {int(k): np.array(v) for k, v in data['vectors'].items()}
          storage.metadatas = {int(k): v for k, v in data['metadatas'].items()}

          return storage
  \<close>
\<close>

definition subscript :: "json \<Rightarrow> string \<Rightarrow> load_error + json" where
  "subscript data key =
     (case data of
        JObj entries \<Rightarrow> (case map_of entries key of None \<Rightarrow> Inl (Raises KeyError) | Some v \<Rightarrow> Inr v)
      | _ \<Rightarrow> Inl (Raises TypeError))"

definition py_items :: "json \<Rightarrow> load_error + (string \<times> json) list" where
  "py_items j = (case j of JObj entries \<Rightarrow> Inr entries | _ \<Rightarrow> Inl (Raises AttributeError))"

fun load_vectors :: "(string \<times> json) list \<Rightarrow> (int, vector) dict \<Rightarrow> load_error + (int, vector) dict" where
  "load_vectors [] d = Inr d"
| "load_vectors ((k, v) # rest) d =
     (case py_int k of
        Inl e \<Rightarrow> Inl (Raises e)
      | Inr i \<Rightarrow> (case np_array v of
                    Inl e \<Rightarrow> Inl e
                  | Inr a \<Rightarrow> load_vectors rest (dict_set i a d)))"

fun load_metadatas :: "(string \<times> json) list \<Rightarrow> (int, json) dict \<Rightarrow> load_error + (int, json) dict" where
  "load_metadatas [] d = Inr d"
| "load_metadatas ((k, v) # rest) d =
     (case py_int k of
        Inl e \<Rightarrow> Inl (Raises e)
      | Inr i \<Rightarrow> load_metadatas rest (dict_set i v d))"

definition as_int :: "json \<Rightarrow> load_error + int" where
  "as_int j = (case j of JInt i \<Rightarrow> Inr i | _ \<Rightarrow> Inl Unrepresentable)"

definition load_data :: "json \<Rightarrow> load_error + VectorStorage" where
  "load_data data =
     and_then (subscript data ''dimension'') (\<lambda>jd.
     and_then (as_int jd) (\<lambda>d.
     and_then (subscript data ''next_id'') (\<lambda>jn.
     and_then (as_int jn) (\<lambda>n.
     and_then (subscript data ''vectors'') (\<lambda>jv.
     and_then (py_items jv) (\<lambda>vitems.
     and_then (load_vectors vitems []) (\<lambda>vs.
     and_then (subscript data ''metadatas'') (\<lambda>jm.
     and_then (py_items jm) (\<lambda>mitems.
     and_then (load_metadatas mitems []) (\<lambda>ms.
       Inr ((VectorStorage_init d)\<lparr>next_id := n, vectors := vs, metadatas := ms\<rparr>)))))))))))"

definition load :: "string \<Rightarrow> filesystem \<Rightarrow> load_error + VectorStorage" where
  "load filepath fs =
     (case fs filepath of None \<Rightarrow> Inl (Raises FileNotFoundError) | Some data \<Rightarrow> load_data data)"

subsection \<open>Distance functions\<close>

text \<open>
  \<^verbatim>\<open>np.dot\<close> of two one-dimensional arrays needs equal lengths; \<^verbatim>\<open>a-b\<close> broadcasts an
  array of one element against any other; \<^verbatim>\<open>np.linalg.norm\<close> is the Euclidean norm.
\<close>

definition np_dot :: "vector \<Rightarrow> vector \<Rightarrow> error + real" where
  "np_dot a b =
     (if length a = length b then Inr (\<Sum>(x, y) \<leftarrow> zip a b. x * y) else Inl NumpyShapeError)"

definition np_linalg_norm :: "vector \<Rightarrow> real" where
  "np_linalg_norm a = sqrt (\<Sum>x \<leftarrow> a. x * x)"

definition np_sub :: "vector \<Rightarrow> vector \<Rightarrow> error + vector" where
  "np_sub a b =
     (if length a = length b then Inr (map (\<lambda>(x, y). x - y) (zip a b))
      else case (a, b) of
             ([x], _) \<Rightarrow> Inr (map (\<lambda>y. x - y) b)
           | (_, [y]) \<Rightarrow> Inr (map (\<lambda>x. x - y) a)
           | _ \<Rightarrow> Inl NumpyShapeError)"

text \<open>
  \<^verbatim>\<open>
  def vers(a, b): return 1.0 - np.dot(a, b) / (np.linalg.norm(a) * np.linalg.norm(b) + 1e-8) # 1 - cosine
  def euclidean(a, b): return np.linalg.norm(a-b)
  def neg_dot(a, b): return -np.dot(a, b) # negative dot
  \<close>
\<close>

definition vers :: "vector \<Rightarrow> vector \<Rightarrow> error + real" where
  "vers a b =
     and_then (np_dot a b) (\<lambda>d. Inr (1 - d / (np_linalg_norm a * np_linalg_norm b + 1 / 10 ^ 8)))"

definition euclidean :: "vector \<Rightarrow> vector \<Rightarrow> error + real" where
  "euclidean a b = and_then (np_sub a b) (\<lambda>d. Inr (np_linalg_norm d))"

definition neg_dot :: "vector \<Rightarrow> vector \<Rightarrow> error + real" where
  "neg_dot a b = and_then (np_dot a b) (\<lambda>d. Inr (- d))"

text \<open>
  \<^verbatim>\<open>
  func_map = {
      'cosine': vers,
      'euclidean': euclidean,
      'dot': neg_dot
  }
  \<close>
  The three functions are values of the dictionary; \<open>call\<close> applies one.
\<close>

datatype distance_function = Vers | Euclidean | Neg_dot

definition func_map :: "(string, distance_function) dict" where
  "func_map = [(''cosine'', Vers), (''euclidean'', Euclidean), (''dot'', Neg_dot)]"

fun call :: "distance_function \<Rightarrow> vector \<Rightarrow> vector \<Rightarrow> error + real" where
  "call Vers a b = vers a b"
| "call Euclidean a b = euclidean a b"
| "call Neg_dot a b = neg_dot a b"

subsection \<open>Clustering\<close>

text \<open>
  \<^verbatim>\<open>
  def run_kmeans(data):
      kmeans = FastKMeans(d=data.shape[1], k=data.shape[0] // 10 + 1,  gpu=False)
      preds = kmeans.fit_predict(data)
      return kmeans.centroids, preds
  \<close>
  \<^verbatim>\<open>FastKMeans\<close> is a library: \<open>fit_predict d k data\<close> stands for it and gives the centroids
  and one cluster number for each row of \<open>data\<close>. The rows are taken to have one length,
  that of the first (\<^verbatim>\<open>add\<close> checks each vector against the dimension); \<^verbatim>\<open>shape[1]\<close> of
  an array without rows raises.
\<close>

type_synonym kmeans = "nat \<Rightarrow> nat \<Rightarrow> vector list \<Rightarrow> vector list \<times> nat list"

definition run_kmeans :: "kmeans \<Rightarrow> vector list \<Rightarrow> error + (vector list \<times> nat list)" where
  "run_kmeans fit_predict data =
     (case data of
        [] \<Rightarrow> Inl IndexError
      | row # _ \<Rightarrow> Inr (fit_predict (length row) (length data div 10 + 1) data))"

text \<open>
  What the index relies on from the library, at the arguments \<^verbatim>\<open>run_kmeans\<close> passes: a
  cluster number for every row, and each number below the number of centroids.
\<close>

definition labels_every_row :: "kmeans \<Rightarrow> vector list \<Rightarrow> bool" where
  "labels_every_row fit_predict data =
     (case run_kmeans fit_predict data of
        Inl e \<Rightarrow> True
      | Inr (cents, preds) \<Rightarrow> length preds = length data)"

definition labels_in_range :: "kmeans \<Rightarrow> vector list \<Rightarrow> bool" where
  "labels_in_range fit_predict data =
     (case run_kmeans fit_predict data of
        Inl e \<Rightarrow> True
      | Inr (cents, preds) \<Rightarrow> list_all (\<lambda>c. c < length cents) preds)"

text \<open>
  \<^verbatim>\<open>
  def build_index(vs):
      ids, vectors = zip(*[(id, vector) for id, vector, _ in vs.get_all()])
      centroids, preds = run_kmeans(np.array(vectors))
      cluster_ids_map = defaultdict(list)
      id_cluster_map = {}
      for id, cluster_id in zip(ids, preds):
          cluster_ids_map[cluster_id.item()].append(id)
          id_cluster_map[id] = cluster_id.item()
      return cluster_ids_map, id_cluster_map, centroids
  \<close>
  Reading a \<^verbatim>\<open>defaultdict(list)\<close> at an absent key inserts the key with an empty list.
\<close>

definition dd_get :: "nat \<Rightarrow> (nat, int list) dict \<Rightarrow> int list \<times> (nat, int list) dict" where
  "dd_get c d = (case map_of d c of Some l \<Rightarrow> (l, d) | None \<Rightarrow> ([], d @ [(c, [])]))"

definition dd_append :: "nat \<Rightarrow> int \<Rightarrow> (nat, int list) dict \<Rightarrow> (nat, int list) dict" where
  "dd_append c i d = (let (l, d1) = dd_get c d in dict_set c (l @ [i]) d1)"

fun assign_all ::
  "(int \<times> nat) list \<Rightarrow> (nat, int list) dict \<times> (int, nat) dict
     \<Rightarrow> (nat, int list) dict \<times> (int, nat) dict" where
  "assign_all [] maps = maps"
| "assign_all ((i, cluster_id) # rest) (cluster_ids_map, id_cluster_map) =
     assign_all rest (dd_append cluster_id i cluster_ids_map, dict_set i cluster_id id_cluster_map)"

definition build_index ::
  "kmeans \<Rightarrow> VectorStorage \<Rightarrow> error + ((nat, int list) dict \<times> (int, nat) dict \<times> vector list)" where
  "build_index fit_predict vs =
     and_then (get_all vs) (\<lambda>all_data.
       if all_data = [] then Inl (ValueError ''not enough values to unpack (expected 2, got 0)'')
       else let ids = map fst all_data; vecs = map (\<lambda>(i, v, m). v) all_data in
         and_then (run_kmeans fit_predict vecs) (\<lambda>(cents, preds).
           let (cluster_ids_map, id_cluster_map) = assign_all (zip ids preds) ([], [])
           in Inr (cluster_ids_map, id_cluster_map, cents)))"

subsection \<open>IVFIndex\<close>

text \<open>
  \<^verbatim>\<open>
  class IVFIndex:
      def __init__(self, storage: VectorStorage, nprobe= 10, distance_fn = "cosine"):
          fc.store_attr()
          self.nprobe = nprobe
          self.distance_fn = distance_fn
          self.is_built = False
          self.dist_func = func_map[distance_fn]
  \<close>
  The index holds a reference to the storage and no copy: every method below takes the
  storage as it is at the time of the call. Before the first \<^verbatim>\<open>build\<close> the attributes
  \<^verbatim>\<open>inverted_lists\<close>, \<^verbatim>\<open>assignments\<close> and \<^verbatim>\<open>centroids\<close> do not exist; they are empty here
  and nothing reads them while \<open>is_built\<close> is false.
\<close>

record IVFIndex =
  nprobe :: int
  distance_fn :: string
  is_built :: bool
  dist_func :: distance_function
  inverted_lists :: "(nat, int list) dict"
  assignments :: "(int, nat) dict"
  centroids :: "vector list"

definition IVFIndex_init :: "int \<Rightarrow> string \<Rightarrow> error + IVFIndex" where
  "IVFIndex_init np fn =
     and_then (dict_get func_map fn) (\<lambda>f.
       Inr \<lparr>nprobe = np, distance_fn = fn, is_built = False, dist_func = f,
            inverted_lists = [], assignments = [], centroids = []\<rparr>)"

text \<open>
  \<^verbatim>\<open>
      def build(self):
          all_data = self.storage.get_all()
          if not all_data: raise ValueError("Storage is empty, cannot build index")

          self.inverted_lists, self.assignments, self.centroids = build_index(self.storage)

          self.is_built = True

          sizes = [len(lst) for lst in self.inverted_lists.values()]
          print(f"Average list size: {sum(sizes)/len(sizes):.1f}, Max: {max(sizes)}")
  \<close>
  The result of the model is what the call prints: the average and the largest list size.
\<close>

abbreviation EmptyStore :: error where
  "EmptyStore \<equiv> ValueError ''Storage is empty, cannot build index''"

abbreviation IndexNotBuilt :: error where
  "IndexNotBuilt \<equiv> ValueError ''Index not built. Call build() first.''"

definition list_sizes :: "(nat, int list) dict \<Rightarrow> nat list" where
  "list_sizes d = map (\<lambda>(c, lst). length lst) d"

definition build ::
  "kmeans \<Rightarrow> VectorStorage \<Rightarrow> IVFIndex \<Rightarrow> (error + (real \<times> nat)) \<times> IVFIndex" where
  "build fit_predict storage self =
     (case get_all storage of
        Inl e \<Rightarrow> (Inl e, self)
      | Inr all_data \<Rightarrow>
          if all_data = [] then (Inl EmptyStore, self)
          else (case build_index fit_predict storage of
                  Inl e \<Rightarrow> (Inl e, self)
                | Inr (inv_lists, assigned, cents) \<Rightarrow>
                    let self1 = self\<lparr>inverted_lists := inv_lists, assignments := assigned,
                                     centroids := cents, is_built := True\<rparr>;
                        sizes = list_sizes (inverted_lists self1)
                    in if sizes = [] then (Inl ZeroDivisionError, self1)
                       else (Inr (real (sum_list sizes) / real (length sizes), Max (set sizes)),
                             self1)))"

text \<open>
  \<^verbatim>\<open>
      def search(self, query_vector, k = 5):
          if not self.is_built: raise ValueError("Index not built. Call build() first.")

          centroid_distances = fc.L(self.centroids.tolist()).enumerate().map(lambda o: (vers(o[1], query_vector).item(), o[0]))
          centroid_distances.sort()

          candidate_ids = centroid_distances[:self.nprobe].itemgot(1).map(lambda o: self.inverted_lists[o]).concat()

          if len(candidate_ids) < k:
              for _, cluster_id in centroid_distances[self.nprobe:]:
                  candidate_ids.extend(self.inverted_lists[cluster_id])
                  if len(candidate_ids) >= k * 2:
                      break

          results = candidate_ids.enumerate().map(lambda o: self.storage.get(o[1])).sorted(key=lambda o: self.dist_func(query_vector, o[0]))
          return results[:k]
  \<close>
  \<^verbatim>\<open>sort()\<close> orders the pairs (distance, cluster number) lexicographically; \<^verbatim>\<open>sorted\<close> with a
  key is stable. \<^verbatim>\<open>xs[:n]\<close> and \<^verbatim>\<open>xs[n:]\<close> count a negative \<open>n\<close> from the end.
  \<^verbatim>\<open>self.inverted_lists\<close> is the \<^verbatim>\<open>defaultdict\<close> of \<^verbatim>\<open>build_index\<close>, so reading it at a
  cluster without a list inserts an empty one.
\<close>

definition slice_to :: "int \<Rightarrow> 'a list \<Rightarrow> 'a list" where
  "slice_to n xs = (if 0 \<le> n then take (nat n) xs else take (length xs - nat (- n)) xs)"

definition slice_from :: "int \<Rightarrow> 'a list \<Rightarrow> 'a list" where
  "slice_from n xs = (if 0 \<le> n then drop (nat n) xs else drop (length xs - nat (- n)) xs)"

fun map_raise :: "('a \<Rightarrow> error + 'b) \<Rightarrow> 'a list \<Rightarrow> error + 'b list" where
  "map_raise f [] = Inr []"
| "map_raise f (x # xs) =
     and_then (f x) (\<lambda>y. and_then (map_raise f xs) (\<lambda>ys. Inr (y # ys)))"

definition centroid_distances :: "vector list \<Rightarrow> vector \<Rightarrow> error + (real \<times> nat) list" where
  "centroid_distances cents query_vector =
     and_then (map_raise (\<lambda>(i, c). and_then (vers c query_vector) (\<lambda>d. Inr (d, i)))
                 (enumerate 0 cents))
       (\<lambda>ds. Inr (sort ds))"

fun probe :: "nat list \<Rightarrow> (nat, int list) dict \<Rightarrow> int list list \<times> (nat, int list) dict" where
  "probe [] d = ([], d)"
| "probe (c # cs) d =
     (let (l, d1) = dd_get c d; (ls, d2) = probe cs d1 in (l # ls, d2))"

definition initial_candidates ::
  "int \<Rightarrow> (real \<times> nat) list \<Rightarrow> (nat, int list) dict \<Rightarrow> int list \<times> (nat, int list) dict" where
  "initial_candidates np cds d =
     (let (ls, d1) = probe (map snd (slice_to np cds)) d in (concat ls, d1))"

fun extend_candidates ::
  "int \<Rightarrow> nat list \<Rightarrow> int list \<Rightarrow> (nat, int list) dict \<Rightarrow> int list \<times> (nat, int list) dict" where
  "extend_candidates k [] candidate_ids d = (candidate_ids, d)"
| "extend_candidates k (cluster_id # rest) candidate_ids d =
     (let (l, d1) = dd_get cluster_id d; candidate_ids1 = candidate_ids @ l
      in if k * 2 \<le> int (length candidate_ids1) then (candidate_ids1, d1)
         else extend_candidates k rest candidate_ids1 d1)"

definition gather_candidates ::
  "int \<Rightarrow> int \<Rightarrow> (real \<times> nat) list \<Rightarrow> (nat, int list) dict \<Rightarrow> int list \<times> (nat, int list) dict" where
  "gather_candidates np k cds d =
     (let (candidate_ids, d1) = initial_candidates np cds d
      in if int (length candidate_ids) < k
         then extend_candidates k (map snd (slice_from np cds)) candidate_ids d1
         else (candidate_ids, d1))"

definition rank ::
  "distance_function \<Rightarrow> vector \<Rightarrow> (vector \<times> json) list \<Rightarrow> error + (vector \<times> json) list" where
  "rank f query_vector records =
     and_then (map_raise (\<lambda>r. and_then (call f query_vector (fst r)) (\<lambda>d. Inr (d, r))) records)
       (\<lambda>keyed. Inr (map snd (sort_key fst keyed)))"

definition search ::
  "VectorStorage \<Rightarrow> vector \<Rightarrow> int \<Rightarrow> IVFIndex \<Rightarrow> (error + (vector \<times> json) list) \<times> IVFIndex" where
  "search storage query_vector k self =
     (if \<not> is_built self then (Inl IndexNotBuilt, self)
      else case centroid_distances (centroids self) query_vector of
             Inl e \<Rightarrow> (Inl e, self)
           | Inr cds \<Rightarrow>
               let (candidate_ids, d) = gather_candidates (nprobe self) k cds (inverted_lists self)
               in (and_then (map_raise (get storage) candidate_ids) (\<lambda>records.
                   and_then (rank (dist_func self) query_vector records) (\<lambda>results.
                     Inr (slice_to k results))),
                   self\<lparr>inverted_lists := d\<rparr>))"

text \<open>
  \<^verbatim>\<open>
      def add_vectors_bulk(self, vectors, metadata_list):
          ids = fc.L(vectors, metadata_list).zip(lambda o: self.storage.add(o[0], o[1]))
          self.build()
          return ids
  \<close>
  \<^verbatim>\<open>fc.L(vectors, metadata_list)\<close> is the list of its two arguments. The method of fastcore is
  \<^verbatim>\<open>L.zip(self, cycled=False)\<close>, which returns
  \<^verbatim>\<open>(zip_cycle if cycled else zip)(*self)\<close>: its one parameter is a flag, the function
  passed here is bound to it, counts as true and is never called. So \<^verbatim>\<open>ids\<close> is
  \<^verbatim>\<open>zip_cycle(vectors, metadata_list)\<close>, the vectors paired with the metadata repeated
  cyclically, and \<^verbatim>\<open>self.storage.add\<close> does not run. The notebook that defines the class
  records it: \<^verbatim>\<open>get_stats\<close> prints \<^verbatim>\<open>'n_vectors': 383\<close> before and after three vectors are
  passed to \<^verbatim>\<open>add_vectors_bulk\<close>.
\<close>

definition zip_cycle :: "'a list \<Rightarrow> 'b list \<Rightarrow> ('a \<times> 'b) list" where
  "zip_cycle xs ys = zip xs (concat (replicate (length xs) ys))"

definition add_vectors_bulk ::
  "kmeans \<Rightarrow> vector list \<Rightarrow> json list \<Rightarrow> VectorStorage \<Rightarrow> IVFIndex
     \<Rightarrow> (error + (vector \<times> json) list) \<times> VectorStorage \<times> IVFIndex" where
  "add_vectors_bulk fit_predict vecs metadata_list storage self =
     (let ids = zip_cycle vecs metadata_list
      in case build fit_predict storage self of
           (Inl e, self1) \<Rightarrow> (Inl e, storage, self1)
         | (Inr printed, self1) \<Rightarrow> (Inr ids, storage, self1))"

text \<open>
  What the method was written to do, for comparison: each pair added to the storage in
  input order, then the rebuild, and the ids of the \<^verbatim>\<open>add\<close> calls as the result.
\<close>

fun add_each ::
  "(vector \<times> json) list \<Rightarrow> VectorStorage \<Rightarrow> (error + int list) \<times> VectorStorage" where
  "add_each [] storage = (Inr [], storage)"
| "add_each ((v, m) # rest) storage =
     (case add v m storage of
        (Inl e, storage1) \<Rightarrow> (Inl e, storage1)
      | (Inr i, storage1) \<Rightarrow>
          (case add_each rest storage1 of
             (Inl e, storage2) \<Rightarrow> (Inl e, storage2)
           | (Inr js, storage2) \<Rightarrow> (Inr (i # js), storage2)))"

text \<open>
  \<^verbatim>\<open>
      def get_stats(self):
          if not self.is_built: return {"built": False}

          sizes = [len(lst) for lst in self.inverted_lists.values()]
          return {
              "built": True,
              "n_clusters": len(self.centroids),
              "n_vectors": sum(sizes),
              "avg_cluster_size": sum(sizes) / len(sizes),
              "min_cluster_size": min(sizes),
              "max_cluster_size": max(sizes),
              "empty_clusters": sizes.count(0),
              "nprobe": self.nprobe
          }
  \<close>
\<close>

record stats =
  n_clusters :: nat
  n_vectors :: nat
  avg_cluster_size :: real
  min_cluster_size :: nat
  max_cluster_size :: nat
  empty_clusters :: nat
  stats_nprobe :: int

datatype stats_report = Not_built | Built stats

definition get_stats :: "IVFIndex \<Rightarrow> error + stats_report" where
  "get_stats self =
     (if \<not> is_built self then Inr Not_built
      else let sizes = list_sizes (inverted_lists self)
           in if sizes = [] then Inl ZeroDivisionError
              else Inr (Built \<lparr>n_clusters = length (centroids self),
                               n_vectors = sum_list sizes,
                               avg_cluster_size = real (sum_list sizes) / real (length sizes),
                               min_cluster_size = Min (set sizes),
                               max_cluster_size = Max (set sizes),
                               empty_clusters = count_list sizes 0,
                               stats_nprobe = nprobe self\<rparr>))"

subsection \<open>Reference definitions and example data\<close>

text \<open>
  The list of a cluster in an inverted-lists dictionary: empty when the cluster has none,
  which is also what a read of the \<^verbatim>\<open>defaultdict\<close> gives.
\<close>

definition list_of_cluster :: "(nat, int list) dict \<Rightarrow> nat \<Rightarrow> int list" where
  "list_of_cluster d c = (case map_of d c of None \<Rightarrow> [] | Some l \<Rightarrow> l)"

text \<open>The ids in the lists of a sequence of clusters, in that order.\<close>

definition lists_of :: "(nat, int list) dict \<Rightarrow> nat list \<Rightarrow> int list" where
  "lists_of d cs = concat (map (list_of_cluster d) cs)"

text \<open>
  The cosine distance as the specification writes it, \<open>1 - a\<cdot>b / (\<parallel>a\<parallel>\<parallel>b\<parallel> + 1e-8)\<close>, to
  compare \<^verbatim>\<open>vers\<close> with.
\<close>

definition cosine_distance :: "vector \<Rightarrow> vector \<Rightarrow> real" where
  "cosine_distance a b =
     1 - (\<Sum>(x, y) \<leftarrow> zip a b. x * y) / (sqrt (\<Sum>x \<leftarrow> a. x\<^sup>2) * sqrt (\<Sum>y \<leftarrow> b. y\<^sup>2) + 1 / 10 ^ 8)"

text \<open>The value of a distance that was computed without an exception.\<close>

definition distance :: "distance_function \<Rightarrow> vector \<Rightarrow> vector \<Rightarrow> real" where
  "distance f a b = (case call f a b of Inl e \<Rightarrow> 0 | Inr d \<Rightarrow> d)"

text \<open>
  The brute-force scan that the specification compares \<^verbatim>\<open>search\<close> with: every stored
  record ranked by the configured distance to the query, ascending, and the first \<open>k\<close>
  returned. It is not part of the source.
\<close>

definition brute_force_scan ::
  "distance_function \<Rightarrow> VectorStorage \<Rightarrow> vector \<Rightarrow> int \<Rightarrow> error + (vector \<times> json) list" where
  "brute_force_scan f storage query_vector k =
     and_then (get_all storage) (\<lambda>all_data.
     and_then (rank f query_vector (map (\<lambda>(i, v, m). (v, m)) all_data)) (\<lambda>ranked.
       Inr (slice_to k ranked)))"

text \<open>The number that a string of digits denotes, read from the left.\<close>

definition value_from :: "nat \<Rightarrow> string \<Rightarrow> nat" where
  "value_from acc ds = foldl (\<lambda>a c. 10 * a + digit_val c) acc ds"

text \<open>
  Two deterministic stand-ins for the clustering library, for the examples: the first \<open>k\<close>
  rows as centroids, and the rows assigned either in turn or all to cluster 0.
\<close>

definition round_robin :: kmeans where
  "round_robin d k data = (take k data, map (\<lambda>j. j mod k) [0..<length data])"

definition all_in_first :: kmeans where
  "all_in_first d k data = (take k data, replicate (length data) 0)"

definition by_axis :: kmeans where
  "by_axis d k data = ([[1, 0], [0, 1]], map (\<lambda>row. if row = [1, 0] then 0 else 1) data)"

text \<open>A store of dimension 1 with one record, and the same store after the record is deleted.\<close>

definition one_record :: VectorStorage where
  "one_record = \<lparr>dimension = 1, vectors = [(0, [1])], metadatas = [(0, JStr ''a'')], next_id = 1\<rparr>"

definition no_record :: VectorStorage where
  "no_record = \<lparr>dimension = 1, vectors = [], metadatas = [], next_id = 1\<rparr>"

definition fresh_index :: IVFIndex where
  "fresh_index = \<lparr>nprobe = 10, distance_fn = ''cosine'', is_built = False, dist_func = Vers,
                   inverted_lists = [], assignments = [], centroids = []\<rparr>"

text \<open>
  The store after two additions and the deletion of the first record; and a store whose
  two dictionaries are out of step, as \<^verbatim>\<open>load\<close> returns it for a file written that way.
\<close>

definition after_delete :: VectorStorage where
  "after_delete = \<lparr>dimension = 1, vectors = [(1, [2])], metadatas = [(1, JStr ''b'')], next_id = 2\<rparr>"

definition lopsided :: VectorStorage where
  "lopsided = \<lparr>dimension = 1, vectors = [(0, [1])], metadatas = [], next_id = 1\<rparr>"

definition one_record_index :: IVFIndex where
  "one_record_index = \<lparr>nprobe = 10, distance_fn = ''cosine'', is_built = True, dist_func = Vers,
                        inverted_lists = [(0, [0])], assignments = [(0, 0)], centroids = [[1]]\<rparr>"

text \<open>A store of dimension 2 with ten records, enough for \<^verbatim>\<open>run_kmeans\<close> to ask for two clusters.\<close>

definition ten_records :: VectorStorage where
  "ten_records =
     \<lparr>dimension = 2,
      vectors = [(0, [0, 1]), (1, [0, 1]), (2, [0, 1]), (3, [0, 1]), (4, [0, 1]),
                 (5, [1, 0]), (6, [1, 0]), (7, [1, 0]), (8, [1, 0]), (9, [1, 0])],
      metadatas = [(0, JStr ''a''), (1, JStr ''b''), (2, JStr ''c''), (3, JStr ''d''),
                   (4, JStr ''e''), (5, JStr ''f''), (6, JStr ''g''), (7, JStr ''h''),
                   (8, JStr ''i''), (9, JStr ''j'')],
      next_id = 10\<rparr>"

text \<open>
  The store of one record after a second is added, its index, and the index of the ten
  records set to probe one cluster and to rank by the dot product.
\<close>

definition two_records :: VectorStorage where
  "two_records = \<lparr>dimension = 1, vectors = [(0, [1]), (1, [- 1])],
                   metadatas = [(0, JStr ''a''), (1, JStr ''b'')], next_id = 2\<rparr>"

definition two_records_index :: IVFIndex where
  "two_records_index = \<lparr>nprobe = 10, distance_fn = ''cosine'', is_built = True, dist_func = Vers,
                         inverted_lists = [(0, [0, 1])], assignments = [(0, 0), (1, 0)],
                         centroids = [[1]]\<rparr>"

definition probe_one_index :: IVFIndex where
  "probe_one_index =
     \<lparr>nprobe = 1, distance_fn = ''dot'', is_built = True, dist_func = Neg_dot,
      inverted_lists = [(1, [0, 1, 2, 3, 4]), (0, [5, 6, 7, 8, 9])],
      assignments = [(0, 1), (1, 1), (2, 1), (3, 1), (4, 1), (5, 0), (6, 0), (7, 0), (8, 0), (9, 0)],
      centroids = [[1, 0], [0, 1]]\<rparr>"

definition by_axis_index :: IVFIndex where
  "by_axis_index =
     \<lparr>nprobe = 10, distance_fn = ''cosine'', is_built = True, dist_func = Vers,
      inverted_lists = [(1, [0, 1, 2, 3, 4]), (0, [5, 6, 7, 8, 9])],
      assignments = [(0, 1), (1, 1), (2, 1), (3, 1), (4, 1), (5, 0), (6, 0), (7, 0), (8, 0), (9, 0)],
      centroids = [[1, 0], [0, 1]]\<rparr>"

definition all_in_first_index :: IVFIndex where
  "all_in_first_index =
     \<lparr>nprobe = 10, distance_fn = ''cosine'', is_built = True, dist_func = Vers,
      inverted_lists = [(0, [0, 1, 2, 3, 4, 5, 6, 7, 8, 9])],
      assignments = [(0, 0), (1, 0), (2, 0), (3, 0), (4, 0), (5, 0), (6, 0), (7, 0), (8, 0), (9, 0)],
      centroids = [[0, 1], [0, 1]]\<rparr>"

section \<open>Properties of the store\<close>

subsection \<open>Dictionaries\<close>

lemma dict_set_fresh: "k \<notin> set (keys d) \<Longrightarrow> dict_set k v d = d @ [(k, v)]"
  by (induction d) (auto simp: keys_def)

lemma map_of_dict_set: "map_of (dict_set k v d) = (map_of d)(k \<mapsto> v)"
  by (induction d) (auto simp: fun_eq_iff)

lemma keys_dict_set:
  "keys (dict_set k v d) = (if k \<in> set (keys d) then keys d else keys d @ [k])"
  by (induction d) (force simp: keys_def)+

subsection \<open>Ids\<close>

lemma next_id_apply_op:
  "next_id s \<le> next_id (snd (apply_op c s))"
  by (cases c) (auto simp: add_def delete_def Let_def split: sum.splits prod.splits if_splits)

lemma next_id_run_ops:
  "next_id s \<le> next_id (snd (run_ops cs s))"
proof (induction cs arbitrary: s)
  case Nil
  show ?case by simp
next
  case (Cons c cs)
  have "next_id s \<le> next_id (snd (apply_op c s))"
    by (rule next_id_apply_op)
  also have "\<dots> \<le> next_id (snd (run_ops cs (snd (apply_op c s))))"
    by (rule Cons.IH)
  finally show ?case
    by (simp add: split_beta Let_def)
qed

lemma added_ids_lower:
  "i \<in> set (added_ids (fst (run_ops cs s))) \<Longrightarrow> next_id s \<le> i"
proof (induction cs arbitrary: s)
  case Nil
  then show ?case by simp
next
  case (Cons c cs)
  obtain r s1 where step: "apply_op c s = (r, s1)"
    by (cases "apply_op c s")
  have mono: "next_id s \<le> next_id s1"
    using next_id_apply_op [of s c] step by simp
  show ?case
  proof (cases "i \<in> set (added_ids (fst (run_ops cs s1)))")
    case True
    then have "next_id s1 \<le> i" by (rule Cons.IH)
    with mono show ?thesis by simp
  next
    case False
    with Cons.prems step have "r = Added i"
      by (cases r) (auto simp: split_beta Let_def)
    with step have "i = next_id s"
      by (cases c) (auto simp: add_def delete_def Let_def split: if_splits)
    then show ?thesis by simp
  qed
qed

lemma added_ids_upper:
  "i \<in> set (added_ids (fst (run_ops cs s))) \<Longrightarrow> i < next_id (snd (run_ops cs s))"
proof (induction cs arbitrary: s)
  case Nil
  then show ?case by simp
next
  case (Cons c cs)
  obtain r s1 where step: "apply_op c s = (r, s1)"
    by (cases "apply_op c s")
  have rest: "next_id s1 \<le> next_id (snd (run_ops cs s1))"
    by (rule next_id_run_ops)
  show ?case
  proof (cases "i \<in> set (added_ids (fst (run_ops cs s1)))")
    case True
    then have "i < next_id (snd (run_ops cs s1))" by (rule Cons.IH)
    with step show ?thesis by (simp add: split_beta Let_def)
  next
    case False
    with Cons.prems step have "r = Added i"
      by (cases r) (auto simp: split_beta Let_def)
    with step have "next_id s1 = i + 1"
      by (cases c) (auto simp: add_def delete_def Let_def split: if_splits)
    with rest step show ?thesis by (simp add: split_beta Let_def)
  qed
qed

lemma added_ids_increasing:
  "sorted_wrt (<) (added_ids (fst (run_ops cs s)))"
proof (induction cs arbitrary: s)
  case Nil
  show ?case by simp
next
  case (Cons c cs)
  obtain r s1 where step: "apply_op c s = (r, s1)"
    by (cases "apply_op c s")
  have IH: "sorted_wrt (<) (added_ids (fst (run_ops cs s1)))"
    by (rule Cons.IH)
  show ?case
  proof (cases r)
    case (Added i)
    with step have "next_id s1 = i + 1"
      by (cases c) (auto simp: add_def delete_def Let_def split: if_splits)
    then have "\<forall>j \<in> set (added_ids (fst (run_ops cs s1))). i < j"
      using added_ids_lower [of _ cs s1] by fastforce
    with IH Added step show ?thesis by (simp add: split_beta Let_def)
  next
    case (Deleted b)
    with IH step show ?thesis by (simp add: split_beta Let_def)
  next
    case (Raised e)
    with IH step show ?thesis by (simp add: split_beta Let_def)
  qed
qed

lemma run_ops_append:
  "run_ops (cs @ ds) s =
     (fst (run_ops cs s) @ fst (run_ops ds (snd (run_ops cs s))),
      snd (run_ops ds (snd (run_ops cs s))))"
  by (induction cs arbitrary: s) (simp_all add: split_beta Let_def)

text \<open>
  C9. Whatever the store and whatever the sequence of \<^verbatim>\<open>add\<close> and \<^verbatim>\<open>delete\<close> calls, the
  ids that the \<^verbatim>\<open>add\<close> calls return are strictly increasing in call order; and an id that an
  earlier \<^verbatim>\<open>add\<close> returned and that is deleted afterwards is returned by no \<^verbatim>\<open>add\<close> that
  follows the deletion.
\<close>

theorem id_monotonicity:
  "sorted_wrt (<) (added_ids (fst (run_ops cs s)))
   \<and> (i \<in> set (added_ids (fst (run_ops before s)))
      \<longrightarrow> i \<notin> set (added_ids (fst (run_ops later
               (snd (run_ops (before @ between @ [Delete i]) s))))))"
proof
  show "sorted_wrt (<) (added_ids (fst (run_ops cs s)))"
    by (rule added_ids_increasing)
next
  show "i \<in> set (added_ids (fst (run_ops before s)))
      \<longrightarrow> i \<notin> set (added_ids (fst (run_ops later
               (snd (run_ops (before @ between @ [Delete i]) s)))))"
  proof
    assume was: "i \<in> set (added_ids (fst (run_ops before s)))"
    let ?s1 = "snd (run_ops before s)"
    let ?s2 = "snd (run_ops (between @ [Delete i]) ?s1)"
    have "i < next_id ?s1"
      using was by (rule added_ids_upper)
    also have "\<dots> \<le> next_id ?s2"
      by (rule next_id_run_ops)
    finally have below: "i < next_id ?s2" .
    have same: "snd (run_ops (before @ between @ [Delete i]) s) = ?s2"
      by (simp add: run_ops_append)
    show "i \<notin> set (added_ids (fst (run_ops later
               (snd (run_ops (before @ between @ [Delete i]) s)))))"
    proof
      assume "i \<in> set (added_ids (fst (run_ops later
               (snd (run_ops (before @ between @ [Delete i]) s)))))"
      then have "next_id ?s2 \<le> i"
        unfolding same by (rule added_ids_lower)
      with below show False by simp
    qed
  qed
qed

theorem id_monotonicity_witness:
  "(0::int) \<in> set (added_ids (fst (run_ops [Add [1] JNull] (VectorStorage_init 1))))
   \<and> added_ids (fst (run_ops [Add [1] JNull, Delete 0, Add [2] JNull] (VectorStorage_init 1))) = [0, 1]
   \<and> sorted_wrt (<) (added_ids (fst (run_ops [Add [1] JNull, Delete 0, Add [2] JNull]
         (VectorStorage_init 1))))
   \<and> (0::int) \<notin> set (added_ids (fst (run_ops [Add [2] JNull]
         (snd (run_ops ([Add [1] JNull] @ [] @ [Delete 0]) (VectorStorage_init 1))))))"
  using id_monotonicity [of "[Add [1] JNull, Delete 0, Add [2] JNull]" "VectorStorage_init 1"
      0 "[Add [1] JNull]" "[Add [2] JNull]" "[]"]
  by (simp add: VectorStorage_init_def add_def delete_def keys_def dict_pop_def Let_def)

subsection \<open>Decimal strings\<close>

lemma of_char_digit_char: "d < 10 \<Longrightarrow> of_char (digit_char d) = 48 + d"
  by (simp add: digit_char_def)

lemma digit_char_props:
  assumes "d < 10"
  shows "is_digit (digit_char d)" and "digit_val (digit_char d) = d"
    and "\<not> is_space (digit_char d)"
    and "digit_char d \<noteq> CHR ''-''" and "digit_char d \<noteq> CHR ''+''"
proof -
  have v: "(of_char (digit_char d) :: nat) = 48 + d"
    using assms by (rule of_char_digit_char)
  show "is_digit (digit_char d)"
    using assms by (simp add: is_digit_def v)
  show "digit_val (digit_char d) = d"
    by (simp add: digit_val_def v)
  show "\<not> is_space (digit_char d)"
    by (simp add: is_space_def v)
  show "digit_char d \<noteq> CHR ''-''"
  proof
    assume "digit_char d = CHR ''-''"
    then have "(of_char (digit_char d) :: nat) = of_char CHR ''-''" by simp
    with v show False by simp
  qed
  show "digit_char d \<noteq> CHR ''+''"
  proof
    assume "digit_char d = CHR ''+''"
    then have "(of_char (digit_char d) :: nat) = of_char CHR ''+''" by simp
    with v show False by simp
  qed
qed

lemma digits_of_all_digits: "list_all is_digit (digits_of n)"
proof (induction n rule: digits_of.induct)
  case (1 n)
  show ?case
  proof (cases "n < 10")
    case True
    then show ?thesis
      by (subst digits_of.simps) (simp add: digit_char_props)
  next
    case False
    with 1 show ?thesis
      by (subst digits_of.simps) (simp add: digit_char_props)
  qed
qed

lemma digits_of_not_Nil: "digits_of n \<noteq> []"
  by (subst digits_of.simps) simp

lemma parse_more_digits:
  "list_all is_digit ds \<Longrightarrow> parse_more acc ds = Some (value_from acc ds)"
  by (induction ds arbitrary: acc) (simp_all add: value_from_def)

lemma parse_nat_digits:
  "list_all is_digit ds \<Longrightarrow> ds \<noteq> [] \<Longrightarrow> parse_nat ds = Some (value_from 0 ds)"
  by (cases ds) (simp_all add: parse_nat_def parse_more_digits, simp add: value_from_def)

lemma value_digits_of: "value_from 0 (digits_of n) = n"
proof (induction n rule: digits_of.induct)
  case (1 n)
  show ?case
  proof (cases "n < 10")
    case True
    then show ?thesis
      by (subst digits_of.simps) (simp add: value_from_def digit_char_props)
  next
    case False
    then have "value_from 0 (digits_of (n div 10)) = n div 10"
      by (rule 1)
    with False show ?thesis
      by (subst digits_of.simps) (simp add: value_from_def digit_char_props)
  qed
qed

lemma parse_nat_digits_of: "parse_nat (digits_of n) = Some n"
  by (simp add: parse_nat_digits digits_of_all_digits digits_of_not_Nil value_digits_of)

lemma strip_no_space:
  assumes "s \<noteq> []" and "\<not> is_space (hd s)" and "\<not> is_space (last s)"
  shows "strip s = s"
proof -
  from assms(1,2) have a: "dropWhile is_space s = s"
    by (cases s) simp_all
  from assms(1,3) have b: "dropWhile is_space (rev s) = rev s"
    by (cases "rev s") (simp_all add: last_rev [symmetric] hd_rev)
  show ?thesis
    by (simp add: strip_def a b)
qed


lemma is_digit_not_other:
  assumes "is_digit c"
  shows "\<not> is_space c" and "c \<noteq> CHR ''-''" and "c \<noteq> CHR ''+''"
  using assms by (auto simp: is_digit_def is_space_def Let_def)

lemma digits_of_ends:
  "is_digit (hd (digits_of n))" "is_digit (last (digits_of n))"
  using digits_of_all_digits [of n] digits_of_not_Nil [of n]
  by (simp_all add: list_all_iff)

lemma strip_py_str: "strip (py_str k) = py_str k"
proof (rule strip_no_space)
  show "py_str k \<noteq> []"
    by (simp add: py_str_def digits_of_not_Nil)
  show "\<not> is_space (hd (py_str k))"
    using digits_of_ends(1) [of "nat k"]
    by (simp add: py_str_def is_digit_not_other) (simp add: is_space_def)
  show "\<not> is_space (last (py_str k))"
    using digits_of_ends(2)
    by (simp add: py_str_def digits_of_not_Nil is_digit_not_other)
qed

lemma py_int_py_str: "py_int (py_str k) = Inr k"
proof (cases "k < 0")
  case True
  then show ?thesis
    by (simp add: py_int_def strip_py_str) (simp add: py_str_def parse_nat_digits_of)
next
  case False
  obtain c cs where ds: "digits_of (nat k) = c # cs"
    using digits_of_not_Nil [of "nat k"] by (cases "digits_of (nat k)") auto
  then have "is_digit c"
    using digits_of_ends(1) [of "nat k"] by simp
  then have c: "c \<noteq> CHR ''-''" "c \<noteq> CHR ''+''"
    by (simp_all add: is_digit_not_other)
  have "parse_nat (c # cs) = Some (nat k)"
    using parse_nat_digits_of [of "nat k"] ds by simp
  with False c ds show ?thesis
    by (simp add: py_int_def strip_py_str) (simp add: py_str_def)
qed

lemma inj_py_str: "inj py_str"
proof (rule injI)
  fix a b
  assume "py_str a = py_str b"
  then have "py_int (py_str a) = py_int (py_str b)" by simp
  then show "a = b" by (simp add: py_int_py_str)
qed

subsection \<open>Saving and loading\<close>

lemma foldl_dict_set_fresh:
  "distinct (map fst items) \<Longrightarrow> set (map fst items) \<inter> set (keys d) = {} \<Longrightarrow>
     foldl (\<lambda>d (k, v). dict_set k v d) d items = d @ items"
proof (induction items arbitrary: d)
  case Nil
  then show ?case by simp
next
  case (Cons p items)
  obtain k v where p: "p = (k, v)" by (cases p)
  have fresh: "dict_set k v d = d @ [(k, v)]"
    using Cons.prems(2) p by (intro dict_set_fresh) auto
  have "foldl (\<lambda>d (k, v). dict_set k v d) (d @ [(k, v)]) items = (d @ [(k, v)]) @ items"
    using Cons.prems p by (intro Cons.IH) (auto simp: keys_def)
  with fresh p show ?case by simp
qed

lemma dict_of_items_distinct:
  "distinct (map fst items) \<Longrightarrow> dict_of_items items = items"
  using foldl_dict_set_fresh [of items "[]"] by (simp add: dict_of_items_def keys_def)

lemma np_array_tolist: "np_array (tolist v) = Inr v"
  by (simp add: np_array_def tolist_def list_all_iff comp_def)

lemma load_vectors_saved:
  "distinct (map fst vs) \<Longrightarrow> set (map fst vs) \<inter> set (keys d) = {} \<Longrightarrow>
     load_vectors (map (\<lambda>(k, v). (py_str k, tolist v)) vs) d = Inr (d @ vs)"
proof (induction vs arbitrary: d)
  case Nil
  then show ?case by simp
next
  case (Cons p vs)
  obtain k v where p: "p = (k, v)" by (cases p)
  have fresh: "dict_set k v d = d @ [(k, v)]"
    using Cons.prems(2) p by (intro dict_set_fresh) auto
  have "load_vectors (map (\<lambda>(k, v). (py_str k, tolist v)) vs) (d @ [(k, v)]) = Inr ((d @ [(k, v)]) @ vs)"
    using Cons.prems p by (intro Cons.IH) (auto simp: keys_def)
  with fresh p show ?case by (simp add: py_int_py_str np_array_tolist)
qed

lemma load_metadatas_saved:
  "distinct (map fst ms) \<Longrightarrow> set (map fst ms) \<inter> set (keys d) = {} \<Longrightarrow>
     load_metadatas (map (\<lambda>(k, m). (py_str k, m)) ms) d = Inr (d @ ms)"
proof (induction ms arbitrary: d)
  case Nil
  then show ?case by simp
next
  case (Cons p ms)
  obtain k v where p: "p = (k, v)" by (cases p)
  have fresh: "dict_set k v d = d @ [(k, v)]"
    using Cons.prems(2) p by (intro dict_set_fresh) auto
  have "load_metadatas (map (\<lambda>(k, m). (py_str k, m)) ms) (d @ [(k, v)]) = Inr ((d @ [(k, v)]) @ ms)"
    using Cons.prems p by (intro Cons.IH) (auto simp: keys_def)
  with fresh p show ?case by (simp add: py_int_py_str)
qed

lemma saved_vector_keys:
  "map fst (map (\<lambda>(k, v). (py_str k, tolist v)) vs) = map py_str (map fst vs)"
  by (induction vs) auto

lemma save_data_distinct:
  assumes "distinct (keys (vectors self))"
  shows "save_data self =
     JObj [(''dimension'', JInt (dimension self)),
           (''next_id'', JInt (next_id self)),
           (''vectors'', JObj (map (\<lambda>(k, v). (py_str k, tolist v)) (vectors self))),
           (''metadatas'', JObj (map (\<lambda>(k, m). (py_str k, m)) (metadatas self)))]"
proof -
  have "distinct (map py_str (keys (vectors self)))"
    using assms by (simp add: distinct_map inj_py_str [THEN inj_on_subset])
  then have "distinct (map fst (map (\<lambda>(k, v). (py_str k, tolist v)) (vectors self)))"
    by (simp only: saved_vector_keys keys_def)
  then show ?thesis
    by (simp add: save_data_def dumps_int_keyed_def dict_of_items_distinct)
qed

text \<open>
  C6. For every store, loading the file that \<^verbatim>\<open>save\<close> wrote gives the store back: the same
  dimension and \<open>next_id\<close>, and the same vectors and metadata under the same integer
  ids, in the same order. The two hypotheses say that the dictionaries of the store have
  no key twice, which holds of every Python dictionary and of every store that \<^verbatim>\<open>add\<close>,
  \<^verbatim>\<open>delete\<close> and \<^verbatim>\<open>load\<close> produce (\<open>distinct_run_ops\<close>, \<open>distinct_load_data\<close>).
\<close>

theorem load_save_roundtrip:
  assumes "distinct (keys (vectors self))" and "distinct (keys (metadatas self))"
  shows "load filepath (save filepath self fs) = Inr self"
proof -
  have v: "load_vectors (map (\<lambda>(k, v). (py_str k, tolist v)) (vectors self)) [] = Inr (vectors self)"
    using load_vectors_saved [of "vectors self" "[]"] assms(1) by (simp add: keys_def)
  have m: "load_metadatas (map (\<lambda>(k, m). (py_str k, m)) (metadatas self)) [] = Inr (metadatas self)"
    using load_metadatas_saved [of "metadatas self" "[]"] assms(2) by (simp add: keys_def)
  have "load_data (save_data self) = Inr self"
    by (simp add: save_data_distinct [OF assms(1)] load_data_def and_then_def subscript_def
          as_int_def py_items_def v m VectorStorage_init_def)
  then show ?thesis
    by (simp add: load_def save_def)
qed


text \<open>The dictionaries of a store keep distinct keys, and stay in step, under every operation.\<close>

lemma keys_dict_pop: "keys (dict_pop k d) = filter (\<lambda>j. j \<noteq> k) (keys d)"
  by (induction d) (auto simp: keys_def dict_pop_def)

lemma distinct_apply_op:
  assumes "distinct (keys (vectors s))" and "distinct (keys (metadatas s))"
  shows "distinct (keys (vectors (snd (apply_op c s))))"
    and "distinct (keys (metadatas (snd (apply_op c s))))"
  using assms
  by (cases c; simp add: add_def delete_def Let_def keys_dict_set keys_dict_pop)+

lemma distinct_run_ops:
  "distinct (keys (vectors s)) \<Longrightarrow> distinct (keys (metadatas s)) \<Longrightarrow>
     distinct (keys (vectors (snd (run_ops cs s)))) \<and> distinct (keys (metadatas (snd (run_ops cs s))))"
proof (induction cs arbitrary: s)
  case Nil
  then show ?case by simp
next
  case (Cons c cs)
  have "distinct (keys (vectors (snd (run_ops cs (snd (apply_op c s))))))
      \<and> distinct (keys (metadatas (snd (run_ops cs (snd (apply_op c s))))))"
    using Cons.prems by (intro Cons.IH distinct_apply_op)
  then show ?case by (simp add: split_beta Let_def)
qed

lemma in_sync_apply_op:
  "keys (vectors s) = keys (metadatas s) \<Longrightarrow>
     keys (vectors (snd (apply_op c s))) = keys (metadatas (snd (apply_op c s)))"
  by (cases c; simp add: add_def delete_def Let_def keys_dict_set keys_dict_pop)

lemma in_sync_run_ops:
  "keys (vectors s) = keys (metadatas s) \<Longrightarrow>
     keys (vectors (snd (run_ops cs s))) = keys (metadatas (snd (run_ops cs s)))"
proof (induction cs arbitrary: s)
  case Nil
  then show ?case by simp
next
  case (Cons c cs)
  have "keys (vectors (snd (run_ops cs (snd (apply_op c s)))))
      = keys (metadatas (snd (run_ops cs (snd (apply_op c s)))))"
    using Cons.prems by (intro Cons.IH in_sync_apply_op)
  then show ?case by (simp add: split_beta Let_def)
qed

lemma distinct_load_vectors:
  "load_vectors kvs d = Inr d' \<Longrightarrow> distinct (keys d) \<Longrightarrow> distinct (keys d')"
  by (induction kvs d rule: load_vectors.induct)
     (auto simp: keys_dict_set split: sum.splits)

lemma distinct_load_metadatas:
  "load_metadatas kvs d = Inr d' \<Longrightarrow> distinct (keys d) \<Longrightarrow> distinct (keys d')"
  by (induction kvs d rule: load_metadatas.induct)
     (auto simp: keys_dict_set split: sum.splits)

lemma distinct_load_data:
  assumes "load_data data = Inr s"
  shows "distinct (keys (vectors s)) \<and> distinct (keys (metadatas s))"
proof -
  from assms obtain vitems mitems vs ms where
    "load_vectors vitems [] = Inr vs" "load_metadatas mitems [] = Inr ms"
    "vectors s = vs" "metadatas s = ms"
    by (auto simp: load_data_def and_then_def split: sum.splits)
  then show ?thesis
    using distinct_load_vectors [of vitems "[]" vs] distinct_load_metadatas [of mitems "[]" ms]
    by (simp add: keys_def)
qed

text \<open>A store with a deletion behind it.\<close>

lemma run_example: 
  "run_ops [Add [1] (JStr ''a''), Add [2] (JStr ''b''), Delete 0] (VectorStorage_init 1)
     = ([Added 0, Added 1, Deleted True], after_delete)"
  by (simp add: VectorStorage_init_def add_def delete_def keys_def dict_pop_def after_delete_def)

theorem load_save_roundtrip_witness:
  "distinct (keys (vectors after_delete)) \<and> distinct (keys (metadatas after_delete))
   \<and> load ''data/my_vectors.json'' (save ''data/my_vectors.json'' after_delete Map.empty)
       = Inr after_delete"
proof -
  have d: "distinct (keys (vectors after_delete))" "distinct (keys (metadatas after_delete))"
    by (simp_all add: after_delete_def keys_def)
  show ?thesis
    using d load_save_roundtrip [OF d, of "''data/my_vectors.json''" Map.empty] by simp
qed

lemma set_keys_dict_set: "set (keys (dict_set k v d)) = insert k (set (keys d))"
  by (auto simp: keys_dict_set)

lemma keys_foldl_dict_set:
  "set (keys (foldl (\<lambda>d (k, v). dict_set k v d) d kvs)) = set (keys d) \<union> set (map fst kvs)"
proof (induction kvs arbitrary: d)
  case Nil
  show ?case by simp
next
  case (Cons p kvs)
  obtain k v where p: "p = (k, v)" by (cases p)
  have "set (keys (foldl (\<lambda>d (k, v). dict_set k v d) (dict_set k v d) kvs))
      = set (keys (dict_set k v d)) \<union> set (map fst kvs)"
    by (rule Cons.IH)
  with p show ?case by (simp add: set_keys_dict_set)
qed

lemma keys_dict_of_items: "set (keys (dict_of_items kvs)) = set (map fst kvs)"
  by (simp add: dict_of_items_def keys_foldl_dict_set) (simp add: keys_def)

text \<open>
  C7, as the code has it. The document that \<^verbatim>\<open>save\<close> writes has exactly the four
  top-level fields \<^verbatim>\<open>dimension\<close>, \<^verbatim>\<open>next_id\<close>, \<^verbatim>\<open>vectors\<close> and \<^verbatim>\<open>metadatas\<close>; \<^verbatim>\<open>vectors\<close>
  and \<^verbatim>\<open>metadatas\<close> are objects keyed by the decimal strings of the ids in the store's two
  dictionaries, and the two key sets are equal exactly when the two dictionaries hold the
  same ids (as they do in every store made by \<^verbatim>\<open>add\<close> and \<^verbatim>\<open>delete\<close> from an empty one,
  \<open>in_sync_run_ops\<close>).
\<close>

theorem saved_document_fields:
  "\<exists>vs ms. save filepath self fs filepath =
             Some (JObj [(''dimension'', JInt (dimension self)),
                         (''next_id'', JInt (next_id self)),
                         (''vectors'', JObj vs),
                         (''metadatas'', JObj ms)])
     \<and> set (keys vs) = py_str ` set (keys (vectors self))
     \<and> set (keys ms) = py_str ` set (keys (metadatas self))
     \<and> (set (keys vs) = set (keys ms) \<longleftrightarrow> set (keys (vectors self)) = set (keys (metadatas self)))"
proof -
  let ?vs = "dict_of_items (map (\<lambda>(k, v). (py_str k, tolist v)) (vectors self))"
  let ?ms = "map (\<lambda>(k, m). (py_str k, m)) (metadatas self)"
  have v: "set (keys ?vs) = py_str ` set (keys (vectors self))"
    by (simp only: keys_dict_of_items saved_vector_keys) (simp add: keys_def image_image)
  have m: "set (keys ?ms) = py_str ` set (keys (metadatas self))"
    by (simp add: keys_def image_image split_beta)
  have e: "set (keys ?vs) = set (keys ?ms) \<longleftrightarrow> set (keys (vectors self)) = set (keys (metadatas self))"
    unfolding v m by (rule inj_image_eq_iff [OF inj_py_str])
  have "save filepath self fs filepath =
             Some (JObj [(''dimension'', JInt (dimension self)),
                         (''next_id'', JInt (next_id self)),
                         (''vectors'', JObj ?vs),
                         (''metadatas'', JObj ?ms)])"
    by (simp add: save_def save_data_def dumps_int_keyed_def)
  with v m e show ?thesis by blast
qed

theorem saved_document_fields_witness:
  "\<exists>vs ms. save ''data/my_vectors.json'' after_delete Map.empty ''data/my_vectors.json'' =
             Some (JObj [(''dimension'', JInt (dimension after_delete)),
                         (''next_id'', JInt (next_id after_delete)),
                         (''vectors'', JObj vs),
                         (''metadatas'', JObj ms)])
     \<and> set (keys vs) = py_str ` set (keys (vectors after_delete))
     \<and> set (keys ms) = py_str ` set (keys (metadatas after_delete))
     \<and> (set (keys vs) = set (keys ms)
          \<longleftrightarrow> set (keys (vectors after_delete)) = set (keys (metadatas after_delete)))"
  using saved_document_fields [of "''data/my_vectors.json''" after_delete Map.empty] .

text \<open>
  The fourth field is not called \<^verbatim>\<open>metadata\<close>; and a store loaded from a document whose
  two objects have different keys is saved with different keys again.
\<close>

lemma digit_char_0: "digit_char 0 = CHR ''0''"
  by (rule of_char_eqI [where ?'a = nat]) (simp add: digit_char_def)

lemma digit_char_1: "digit_char (Suc 0) = CHR ''1''"
  by (rule of_char_eqI [where ?'a = nat]) (simp add: digit_char_def)

lemmas digit_char_small = digit_char_0 digit_char_1

lemma py_str_small: "py_str 0 = ''0''" "py_str 1 = ''1''"
  by (simp_all add: py_str_def digits_of.simps digit_char_small)

theorem saved_document_fields_counterexample:
  "subscript (save_data (VectorStorage_init 768)) ''metadata'' = Inl (Raises KeyError)
   \<and> subscript (save_data (VectorStorage_init 768)) ''metadatas'' = Inr (JObj [])
   \<and> load_data (JObj [(''dimension'', JInt 1), (''next_id'', JInt 1),
                       (''vectors'', JObj [(''0'', JArr [JFloat 1])]),
                       (''metadatas'', JObj [])]) = Inr lopsided
   \<and> save_data lopsided = JObj [(''dimension'', JInt 1), (''next_id'', JInt 1),
                       (''vectors'', JObj [(''0'', JArr [JFloat 1])]),
                       (''metadatas'', JObj [])]"
  by (simp add: save_data_def VectorStorage_init_def subscript_def dumps_int_keyed_def
        dict_of_items_def load_data_def and_then_def as_int_def py_items_def lopsided_def
        py_int_def strip_def is_space_def parse_nat_def is_digit_def digit_val_def
        np_array_def tolist_def py_str_small)

section \<open>Properties of the index\<close>

subsection \<open>Building\<close>

text \<open>
  Appending an id to the list of a cluster walks the dictionary once: the list of the
  cluster grows in place, or a new entry is added at the end.
\<close>

lemma dd_append_Nil: "dd_append c i [] = [(c, [i])]"
  by (simp add: dd_append_def dd_get_def)

lemma dd_append_Cons:
  "dd_append c i ((c', l) # ps) = (if c' = c then (c, l @ [i]) # ps else (c', l) # dd_append c i ps)"
  by (simp add: dd_append_def dd_get_def split: option.splits)

lemma keys_dd_append:
  "keys (dd_append c i d) = (if c \<in> set (keys d) then keys d else keys d @ [c])"
  by (induction d) (force simp: dd_append_Nil dd_append_Cons keys_def)+

lemma list_of_cluster_dd_append:
  "list_of_cluster (dd_append c i d) c' =
     (if c' = c then list_of_cluster d c @ [i] else list_of_cluster d c')"
  by (induction d) (auto simp: dd_append_Nil dd_append_Cons list_of_cluster_def)

lemma mset_lists_dd_append:
  "mset (concat (map snd (dd_append c i d))) = mset (concat (map snd d)) + {#i#}"
  by (induction d) (auto simp: dd_append_Nil dd_append_Cons)

lemma nonempty_dd_append:
  "list_all (\<lambda>p. snd p \<noteq> []) d \<Longrightarrow> list_all (\<lambda>p. snd p \<noteq> []) (dd_append c i d)"
  by (induction d) (auto simp: dd_append_Nil dd_append_Cons)

lemma set_keys_dd_append: "set (keys (dd_append c i d)) = insert c (set (keys d))"
  by (auto simp: keys_dd_append)

lemma distinct_keys_dd_append: "distinct (keys d) \<Longrightarrow> distinct (keys (dd_append c i d))"
  by (simp add: keys_dd_append)

lemma get_all_items_keys:
  "get_all_items ms vs = Inr out \<Longrightarrow> map fst out = keys vs \<and> map (\<lambda>(i, v, m). v) out = map snd vs"
  by (induction ms vs arbitrary: out rule: get_all_items.induct)
     (auto simp: keys_def split: sum.splits)

lemma assign_all_lists:
  "assign_all pairs (cm, im) = (cm', im') \<Longrightarrow>
     mset (concat (map snd cm')) = mset (concat (map snd cm)) + mset (map fst pairs)"
  by (induction pairs arbitrary: cm im) (auto simp: mset_lists_dd_append)

lemma assign_all_keys:
  "assign_all pairs (cm, im) = (cm', im') \<Longrightarrow>
     set (keys cm') = set (keys cm) \<union> set (map snd pairs)"
proof (induction pairs arbitrary: cm im)
  case Nil
  then show ?case by simp
next
  case (Cons p pairs)
  obtain i c where p: "p = (i, c)" by (cases p)
  have "set (keys cm') = set (keys (dd_append c i cm)) \<union> set (map snd pairs)"
    using Cons.prems p by (intro Cons.IH [of _ "dict_set i c im"]) simp
  then show ?case
    using p by (simp add: set_keys_dd_append)
qed

lemma assign_all_distinct_keys:
  "assign_all pairs (cm, im) = (cm', im') \<Longrightarrow> distinct (keys cm) \<Longrightarrow> distinct (keys cm')"
proof (induction pairs arbitrary: cm im)
  case Nil
  then show ?case by simp
next
  case (Cons p pairs)
  obtain i c where p: "p = (i, c)" by (cases p)
  show ?case
  proof (rule Cons.IH)
    show "assign_all pairs (dd_append c i cm, dict_set i c im) = (cm', im')"
      using Cons.prems(1) p by simp
    show "distinct (keys (dd_append c i cm))"
      using Cons.prems(2) by (rule distinct_keys_dd_append)
  qed
qed

lemma assign_all_nonempty:
  "assign_all pairs (cm, im) = (cm', im') \<Longrightarrow> list_all (\<lambda>p. snd p \<noteq> []) cm \<Longrightarrow>
     list_all (\<lambda>p. snd p \<noteq> []) cm'"
proof (induction pairs arbitrary: cm im)
  case Nil
  then show ?case by simp
next
  case (Cons p pairs)
  obtain i c where p: "p = (i, c)" by (cases p)
  show ?case
  proof (rule Cons.IH)
    show "assign_all pairs (dd_append c i cm, dict_set i c im) = (cm', im')"
      using Cons.prems(1) p by simp
    show "list_all (\<lambda>p. snd p \<noteq> []) (dd_append c i cm)"
      using Cons.prems(2) by (rule nonempty_dd_append)
  qed
qed

lemma assign_all_agree:
  "assign_all pairs (cm, im) = (cm', im') \<Longrightarrow> distinct (map fst pairs) \<Longrightarrow>
   set (map fst pairs) \<inter> set (concat (map snd cm)) = {} \<Longrightarrow>
   (\<forall>i c. map_of im i = Some c \<longleftrightarrow> i \<in> set (list_of_cluster cm c)) \<Longrightarrow>
   (\<forall>i c. map_of im' i = Some c \<longleftrightarrow> i \<in> set (list_of_cluster cm' c))"
proof (induction pairs arbitrary: cm im)
  case Nil
  then show ?case by simp
next
  case (Cons p pairs)
  obtain j d where p: "p = (j, d)" by (cases p)
  let ?cm = "dd_append d j cm" and ?im = "dict_set j d im"
  have step: "assign_all pairs (?cm, ?im) = (cm', im')"
    using Cons.prems(1) p by simp
  have fresh: "j \<notin> set (concat (map snd cm))"
    using Cons.prems(3) p by auto
  have nowhere: "j \<notin> set (list_of_cluster cm c)" for c
  proof
    assume "j \<in> set (list_of_cluster cm c)"
    then obtain l where "map_of cm c = Some l" "j \<in> set l"
      by (cases "map_of cm c") (auto simp: list_of_cluster_def)
    then have "(c, l) \<in> set cm" by (auto dest: map_of_SomeD)
    with \<open>j \<in> set l\<close> fresh show False by force
  qed
  have d1: "distinct (map fst pairs)"
    using Cons.prems(2) by simp
  have "set (concat (map snd ?cm)) = set (concat (map snd cm)) \<union> {j}"
    using mset_lists_dd_append [of d j cm, THEN arg_cong, of set_mset] by simp
  then have d2: "set (map fst pairs) \<inter> set (concat (map snd ?cm)) = {}"
    using Cons.prems(2,3) p by auto
  have d3: "\<forall>i c. map_of ?im i = Some c \<longleftrightarrow> i \<in> set (list_of_cluster ?cm c)"
    using Cons.prems(4) nowhere
    by (auto simp: map_of_dict_set list_of_cluster_dd_append)
  show ?case
    by (rule Cons.IH [OF step d1 d2 d3])
qed




lemma build_success:
  assumes "build fit_predict storage self = (Inr printed, self1)"
  obtains all_data cents preds cm im where
    "get_all storage = Inr all_data" and "all_data \<noteq> []"
    and "run_kmeans fit_predict (map (\<lambda>(i, v, m). v) all_data) = Inr (cents, preds)"
    and "assign_all (zip (map fst all_data) preds) ([], []) = (cm, im)"
    and "self1 = self\<lparr>inverted_lists := cm, assignments := im, centroids := cents, is_built := True\<rparr>"
    and "list_sizes cm \<noteq> []"
proof -
  from assms obtain all_data where a: "get_all storage = Inr all_data" and ne: "all_data \<noteq> []"
    by (cases "get_all storage") (auto simp: build_def split: if_splits)
  from assms a ne obtain cm im cents where
    bi: "build_index fit_predict storage = Inr (cm, im, cents)"
    by (cases "build_index fit_predict storage") (auto simp: build_def)
  from bi a ne obtain preds where
    k: "run_kmeans fit_predict (map (\<lambda>(i, v, m). v) all_data) = Inr (cents, preds)"
    and asg: "assign_all (zip (map fst all_data) preds) ([], []) = (cm, im)"
    by (cases "run_kmeans fit_predict (map (\<lambda>(i, v, m). v) all_data)")
       (auto simp: build_index_def and_then_def Let_def split: prod.splits)
  from assms a ne bi have
    s1: "self1 = self\<lparr>inverted_lists := cm, assignments := im, centroids := cents, is_built := True\<rparr>"
    and sz: "list_sizes cm \<noteq> []"
    by (auto simp: build_def Let_def split: if_splits)
  from a ne k asg s1 sz show thesis by (rule that)
qed

text \<open>
  C10. Right after every successful \<^verbatim>\<open>build\<close>, \<^verbatim>\<open>get_stats\<close> reports no empty cluster
  and reports as the number of clusters the number of centroids that the clustering
  returned. The inverted lists hold an entry only for the clusters that received an id,
  each entry non-empty, so a cluster without vectors is absent and not counted as empty.
\<close>

theorem stats_after_build:
  assumes "build fit_predict storage self = (Inr printed, self1)"
  shows "\<exists>st all_data cents preds.
           get_all storage = Inr all_data
         \<and> run_kmeans fit_predict (map (\<lambda>(i, v, m). v) all_data) = Inr (cents, preds)
         \<and> get_stats self1 = Inr (Built st)
         \<and> empty_clusters st = 0
         \<and> n_clusters st = length cents
         \<and> list_all (\<lambda>(c, lst). lst \<noteq> []) (inverted_lists self1)
         \<and> set (keys (inverted_lists self1)) = set (take (length all_data) preds)"
proof -
  from assms obtain all_data cents preds cm im where
    a: "get_all storage = Inr all_data"
    and k: "run_kmeans fit_predict (map (\<lambda>(i, v, m). v) all_data) = Inr (cents, preds)"
    and asg: "assign_all (zip (map fst all_data) preds) ([], []) = (cm, im)"
    and s1: "self1 = self\<lparr>inverted_lists := cm, assignments := im, centroids := cents, is_built := True\<rparr>"
    and sz: "list_sizes cm \<noteq> []"
    by (rule build_success)
  have ne: "list_all (\<lambda>p. snd p \<noteq> []) cm"
    using asg by (rule assign_all_nonempty) simp
  then have ne': "list_all (\<lambda>(c, lst). lst \<noteq> []) cm"
    by (simp add: list_all_iff split_beta)
  from ne have "0 \<notin> set (list_sizes cm)"
    by (auto simp: list_sizes_def list_all_iff)
  then have zero: "count_list (list_sizes cm) 0 = 0"
    by (simp add: count_list_0_iff)
  have ks: "set (keys cm) = set (take (length all_data) preds)"
    using assign_all_keys [OF asg] by (simp add: keys_def map_snd_zip_take min_def)
  let ?st = "\<lparr>n_clusters = length cents, n_vectors = sum_list (list_sizes cm),
              avg_cluster_size = real (sum_list (list_sizes cm)) / real (length (list_sizes cm)),
              min_cluster_size = Min (set (list_sizes cm)),
              max_cluster_size = Max (set (list_sizes cm)),
              empty_clusters = count_list (list_sizes cm) 0,
              stats_nprobe = nprobe self\<rparr>"
  have "get_stats self1 = Inr (Built ?st)"
    using s1 sz by (simp add: get_stats_def Let_def)
  with a k zero ne' ks s1 show ?thesis
    by (intro exI [of _ ?st] exI [of _ all_data] exI [of _ cents] exI [of _ preds]) simp
qed

text \<open>The builds of the example stores.\<close>

lemma build_all_in_first:
  "build all_in_first ten_records fresh_index = (Inr (10, 10), all_in_first_index)"
  by (simp add: build_def get_all_def ten_records_def fresh_index_def dict_get_def
        build_index_def and_then_def run_kmeans_def all_in_first_def dd_append_def dd_get_def
        list_sizes_def all_in_first_index_def)

lemma build_by_axis:
  "build by_axis ten_records fresh_index = (Inr (5, 5), by_axis_index)"
  by (simp add: build_def get_all_def ten_records_def fresh_index_def dict_get_def
        build_index_def and_then_def run_kmeans_def by_axis_def dd_append_def dd_get_def
        list_sizes_def by_axis_index_def)

lemma build_one_record:
  "build round_robin one_record fresh_index = (Inr (1, 1), one_record_index)"
  by (simp add: build_def get_all_def one_record_def fresh_index_def dict_get_def
        build_index_def and_then_def run_kmeans_def round_robin_def dd_append_def dd_get_def
        list_sizes_def one_record_index_def)

text \<open>
  Ten records that the clustering puts all into cluster 0 of two: the statistics count
  two clusters and no empty one.
\<close>

theorem stats_after_build_witness:
  "\<exists>st all_data cents preds.
           get_all ten_records = Inr all_data
         \<and> run_kmeans all_in_first (map (\<lambda>(i, v, m). v) all_data) = Inr (cents, preds)
         \<and> get_stats all_in_first_index = Inr (Built st)
         \<and> empty_clusters st = 0
         \<and> n_clusters st = length cents
         \<and> list_all (\<lambda>(c, lst). lst \<noteq> []) (inverted_lists all_in_first_index)
         \<and> set (keys (inverted_lists all_in_first_index)) = set (take (length all_data) preds)"
  using stats_after_build [OF build_all_in_first] .

lemma stats_all_in_first:
  "get_stats all_in_first_index =
     Inr (Built \<lparr>n_clusters = 2, n_vectors = 10, avg_cluster_size = 10, min_cluster_size = 10,
                 max_cluster_size = 10, empty_clusters = 0, stats_nprobe = 10\<rparr>)"
  by (simp add: get_stats_def all_in_first_index_def list_sizes_def)

text \<open>
  C5. After every successful \<^verbatim>\<open>build\<close>, given that the clustering returned a cluster
  number for each row: the ids in the inverted lists are exactly the ids of the snapshot
  \<^verbatim>\<open>get_all\<close> gave to that build, no id occurs twice (neither in two lists nor twice in
  one), and the assignment map sends an id to a cluster exactly when the list of that
  cluster holds the id. The keys of the snapshot are distinct because it is read from a
  dictionary.
\<close>

theorem partition_after_build:
  assumes "build fit_predict storage self = (Inr printed, self1)"
    and "distinct (keys (vectors storage))"
    and "labels_every_row fit_predict (map snd (vectors storage))"
  shows "\<exists>snapshot. get_all storage = Inr snapshot
         \<and> set (concat (map snd (inverted_lists self1))) = set (map fst snapshot)
         \<and> distinct (concat (map snd (inverted_lists self1)))
         \<and> distinct (keys (inverted_lists self1))
         \<and> (\<forall>i c. map_of (assignments self1) i = Some c
                 \<longleftrightarrow> i \<in> set (list_of_cluster (inverted_lists self1) c))"
proof -
  from assms(1) obtain all_data cents preds cm im where
    a: "get_all storage = Inr all_data"
    and k: "run_kmeans fit_predict (map (\<lambda>(i, v, m). v) all_data) = Inr (cents, preds)"
    and asg: "assign_all (zip (map fst all_data) preds) ([], []) = (cm, im)"
    and s1: "self1 = self\<lparr>inverted_lists := cm, assignments := im, centroids := cents, is_built := True\<rparr>"
    by (rule build_success)
  from a have ids: "map fst all_data = keys (vectors storage)"
    and vecs: "map (\<lambda>(i, v, m). v) all_data = map snd (vectors storage)"
    using get_all_items_keys [of "metadatas storage" "vectors storage" all_data]
    by (simp_all add: get_all_def)
  have "length all_data = length (vectors storage)"
    using arg_cong [OF vecs, of length] by simp
  with assms(3) k vecs have len: "length preds = length all_data"
    by (simp add: labels_every_row_def)
  then have firsts: "map fst (zip (map fst all_data) preds) = map fst all_data"
    by simp
  have m: "mset (concat (map snd cm)) = mset (map fst all_data)"
    using assign_all_lists [OF asg] firsts by simp
  have dist_ids: "distinct (map fst all_data)"
    using assms(2) ids by simp
  have p1: "set (concat (map snd cm)) = set (map fst all_data)"
    using m by (rule mset_eq_setD)
  have p2: "distinct (concat (map snd cm))"
    using mset_eq_imp_distinct_iff [OF m] dist_ids by simp
  have p3: "distinct (keys cm)"
    using asg by (rule assign_all_distinct_keys) (simp add: keys_def)
  have p4: "\<forall>i c. map_of im i = Some c \<longleftrightarrow> i \<in> set (list_of_cluster cm c)"
    using asg
  proof (rule assign_all_agree)
    show "distinct (map fst (zip (map fst all_data) preds))"
      using firsts dist_ids by simp
  qed (simp_all add: list_of_cluster_def)
  from a p1 p2 p3 p4 s1 show ?thesis by simp
qed

theorem partition_after_build_witness:
  "\<exists>snapshot. get_all ten_records = Inr snapshot
         \<and> set (concat (map snd (inverted_lists by_axis_index))) = set (map fst snapshot)
         \<and> distinct (concat (map snd (inverted_lists by_axis_index)))
         \<and> distinct (keys (inverted_lists by_axis_index))
         \<and> (\<forall>i c. map_of (assignments by_axis_index) i = Some c
                 \<longleftrightarrow> i \<in> set (list_of_cluster (inverted_lists by_axis_index) c))"
proof -
  have d: "distinct (keys (vectors ten_records))"
    by (simp add: ten_records_def keys_def)
  have l: "labels_every_row by_axis (map snd (vectors ten_records))"
    by (simp add: labels_every_row_def run_kmeans_def by_axis_def ten_records_def)
  show ?thesis
    using partition_after_build [OF build_by_axis d l] .
qed

text \<open>
  C8, as the code has it. On a storage without records \<^verbatim>\<open>build\<close> raises the
  \<^verbatim>\<open>ValueError\<close> for the empty store and leaves the index as it was: the flag
  \<open>is_built\<close> keeps its value, false for an index that was never built.
\<close>

theorem build_empty_store:
  "vectors storage = [] \<Longrightarrow>
     build fit_predict storage self = (Inl EmptyStore, self)
     \<and> is_built (snd (build fit_predict storage self)) = is_built self"
  by (simp add: build_def get_all_def)

theorem build_empty_store_witness:
  "vectors no_record = []
   \<and> build round_robin no_record fresh_index = (Inl EmptyStore, fresh_index)
   \<and> \<not> is_built (snd (build round_robin no_record fresh_index))"
  using build_empty_store [of no_record round_robin fresh_index]
  by (simp add: no_record_def fresh_index_def)

text \<open>
  The flag is not reset: an index built over one record stays built when the record is
  deleted and \<^verbatim>\<open>build\<close> fails on the empty storage.
\<close>

theorem build_empty_store_counterexample:
  "build round_robin one_record fresh_index = (Inr (1, 1), one_record_index)
   \<and> delete 0 one_record = (Inr True, no_record)
   \<and> get_all no_record = Inr []
   \<and> fst (build round_robin no_record one_record_index) = Inl EmptyStore
   \<and> is_built (snd (build round_robin no_record one_record_index))"
  by (simp add: build_one_record)
     (simp add: build_def get_all_def no_record_def one_record_def one_record_index_def
        delete_def keys_def dict_pop_def)

subsection \<open>Searching\<close>

text \<open>Reading the inverted lists changes no list, and the probes read them in order.\<close>

lemma dd_get_fst: "fst (dd_get c d) = list_of_cluster d c"
  by (simp add: dd_get_def list_of_cluster_def split: option.splits)

lemma dd_get_lists: "list_of_cluster (snd (dd_get c d)) = list_of_cluster d"
proof (rule ext)
  fix x
  show "list_of_cluster (snd (dd_get c d)) x = list_of_cluster d x"
    by (cases "map_of d c"; cases "map_of d x")
       (auto simp: dd_get_def list_of_cluster_def map_add_def)
qed

lemma probe_fst: "fst (probe cs d) = map (list_of_cluster d) cs"
proof (induction cs arbitrary: d)
  case Nil
  show ?case by simp
next
  case (Cons c cs)
  have "fst (probe cs (snd (dd_get c d))) = map (list_of_cluster (snd (dd_get c d))) cs"
    by (rule Cons.IH)
  then show ?case
    by (simp add: split_beta dd_get_fst dd_get_lists)
qed

lemma probe_lists: "list_of_cluster (snd (probe cs d)) = list_of_cluster d"
proof (induction cs arbitrary: d)
  case Nil
  show ?case by simp
next
  case (Cons c cs)
  have "list_of_cluster (snd (probe cs (snd (dd_get c d)))) = list_of_cluster (snd (dd_get c d))"
    by (rule Cons.IH)
  then show ?case
    by (simp add: split_beta dd_get_lists)
qed

lemma initial_candidates_fst:
  "fst (initial_candidates np cds d) = concat (map (list_of_cluster d) (map snd (slice_to np cds)))"
  by (simp add: initial_candidates_def split_beta probe_fst)

lemma initial_candidates_lists:
  "list_of_cluster (snd (initial_candidates np cds d)) = list_of_cluster d"
  by (simp add: initial_candidates_def split_beta probe_lists)

lemma extend_candidates_prefix:
  "\<exists>j \<le> length cs.
      fst (extend_candidates k cs cand d) = cand @ concat (map (list_of_cluster d) (take j cs))
    \<and> (j < length cs \<longrightarrow> k * 2 \<le> int (length (fst (extend_candidates k cs cand d))))
    \<and> (\<forall>i. 0 < i \<and> i < j \<longrightarrow>
           int (length (cand @ concat (map (list_of_cluster d) (take i cs)))) < k * 2)"
proof (induction cs arbitrary: cand d)
  case Nil
  show ?case by simp
next
  case (Cons c cs)
  let ?cand1 = "cand @ list_of_cluster d c" and ?d1 = "snd (dd_get c d)"
  show ?case
  proof (cases "k * 2 \<le> int (length ?cand1)")
    case True
    then have "fst (extend_candidates k (c # cs) cand d) = ?cand1"
      by (simp add: split_beta dd_get_fst)
    with True show ?thesis
      by (intro exI [of _ 1]) simp
  next
    case False
    then have step: "extend_candidates k (c # cs) cand d = extend_candidates k cs ?cand1 ?d1"
      by (simp add: split_beta dd_get_fst)
    from Cons.IH [of ?cand1 ?d1] obtain j where j: "j \<le> length cs"
      and res: "fst (extend_candidates k cs ?cand1 ?d1)
                 = ?cand1 @ concat (map (list_of_cluster d) (take j cs))"
      and stop: "j < length cs \<longrightarrow> k * 2 \<le> int (length (fst (extend_candidates k cs ?cand1 ?d1)))"
      and before: "\<forall>i. 0 < i \<and> i < j \<longrightarrow>
           int (length (?cand1 @ concat (map (list_of_cluster d) (take i cs)))) < k * 2"
      by (auto simp: dd_get_lists)
    have "\<forall>i. 0 < i \<and> i < Suc j \<longrightarrow>
           int (length (cand @ concat (map (list_of_cluster d) (take i (c # cs))))) < k * 2"
    proof (intro allI impI)
      fix i assume i: "0 < i \<and> i < Suc j"
      then obtain i' where i': "i = Suc i'" by (cases i) auto
      show "int (length (cand @ concat (map (list_of_cluster d) (take i (c # cs))))) < k * 2"
      proof (cases "i' = 0")
        case True
        with False i' show ?thesis by simp
      next
        case False
        with i i' before have
          "int (length (?cand1 @ concat (map (list_of_cluster d) (take i' cs)))) < k * 2"
          by auto
        with i' show ?thesis by simp
      qed
    qed
    with j res stop step show ?thesis
      by (intro exI [of _ "Suc j"]) simp
  qed
qed


text \<open>
  The search over the ten records indexed by axis, for a query at the same cosine
  distance from every record.
\<close>

lemma cd_by_axis:
  "centroid_distances (centroids by_axis_index) [1, 1]
     = Inr [(1 - 1 / (sqrt 2 + 1 / 10 ^ 8), 0), (1 - 1 / (sqrt 2 + 1 / 10 ^ 8), Suc 0)]"
  by (simp add: centroid_distances_def by_axis_index_def vers_def np_dot_def np_linalg_norm_def
        and_then_def enumerate_eq_zip)

lemma gather_by_axis:
  "gather_candidates (nprobe by_axis_index) 1 [(x, 0), (y, Suc 0)] (inverted_lists by_axis_index)
     = ([5, 6, 7, 8, 9, 0, 1, 2, 3, 4], inverted_lists by_axis_index)"
  by (simp add: gather_candidates_def initial_candidates_def slice_to_def slice_from_def
        dd_get_def by_axis_index_def)

lemma get_ten:
  "map_raise (get ten_records) [5, 6, 7, 8, 9, 0, 1, 2, 3, 4]
     = Inr [([1, 0], JStr ''f''), ([1, 0], JStr ''g''), ([1, 0], JStr ''h''), ([1, 0], JStr ''i''),
            ([1, 0], JStr ''j''), ([0, 1], JStr ''a''), ([0, 1], JStr ''b''), ([0, 1], JStr ''c''),
            ([0, 1], JStr ''d''), ([0, 1], JStr ''e'')]"
  by (simp add: get_def dict_get_def ten_records_def and_then_def)

lemma rank_ten:
  "rank (dist_func by_axis_index) [1, 1]
        [([1, 0], JStr ''f''), ([1, 0], JStr ''g''), ([1, 0], JStr ''h''), ([1, 0], JStr ''i''),
         ([1, 0], JStr ''j''), ([0, 1], JStr ''a''), ([0, 1], JStr ''b''), ([0, 1], JStr ''c''),
         ([0, 1], JStr ''d''), ([0, 1], JStr ''e'')]
     = Inr [([1, 0], JStr ''f''), ([1, 0], JStr ''g''), ([1, 0], JStr ''h''), ([1, 0], JStr ''i''),
            ([1, 0], JStr ''j''), ([0, 1], JStr ''a''), ([0, 1], JStr ''b''), ([0, 1], JStr ''c''),
            ([0, 1], JStr ''d''), ([0, 1], JStr ''e'')]"
  by (simp add: by_axis_index_def rank_def vers_def np_dot_def np_linalg_norm_def and_then_def)

lemma search_steps:
  assumes "is_built self"
    and "centroid_distances (centroids self) q = Inr cds"
    and "gather_candidates (nprobe self) k cds (inverted_lists self) = (cand, d)"
    and "map_raise (get storage) cand = Inr records"
    and "rank (dist_func self) q records = Inr ranked"
  shows "search storage q k self = (Inr (slice_to k ranked), self\<lparr>inverted_lists := d\<rparr>)"
  using assms by (simp add: search_def and_then_def)

lemma tie_search:
  "search ten_records [1, 1] 1 by_axis_index = (Inr [([1, 0], JStr ''f'')], by_axis_index)"
proof -
  have b: "is_built by_axis_index"
    by (simp add: by_axis_index_def)
  show ?thesis
    using search_steps [OF b cd_by_axis gather_by_axis get_ten rank_ten]
    by (simp add: slice_to_def)
qed

lemma tie_brute:
  "brute_force_scan Vers ten_records [1, 1] 1 = Inr [([0, 1], JStr ''a'')]"
  by (simp add: brute_force_scan_def get_all_def ten_records_def dict_get_def and_then_def
        rank_def vers_def np_dot_def np_linalg_norm_def slice_to_def)


text \<open>The distances to the centroids, and the order of the clusters.\<close>

lemma map_raise_ok: "\<forall>x \<in> set xs. f x = Inr (g x) \<Longrightarrow> map_raise f xs = Inr (map g xs)"
  by (induction xs) (simp_all add: and_then_def)

lemma map_raise_Inr_all: "map_raise f xs = Inr ys \<Longrightarrow> \<forall>x \<in> set xs. \<exists>y. f x = Inr y"
  by (induction xs arbitrary: ys) (auto simp: and_then_def split: sum.splits)

lemma map_raise_Inr_map:
  "map_raise f xs = Inr ys \<Longrightarrow> \<forall>x \<in> set xs. \<forall>y. f x = Inr y \<longrightarrow> y = g x \<Longrightarrow> ys = map g xs"
  by (induction xs arbitrary: ys) (auto simp: and_then_def split: sum.splits)

lemma vers_Inr: "vers a b = Inr d \<longleftrightarrow> length a = length b \<and> d = cosine_distance a b"
  by (auto simp: vers_def np_dot_def and_then_def cosine_distance_def np_linalg_norm_def
        power2_eq_square)

lemma centroid_distances_Inr:
  assumes "centroid_distances cents q = Inr cds"
  shows "cds = sort (map (\<lambda>(i, c). (cosine_distance c q, i)) (enumerate 0 cents))"
    and "\<forall>c \<in> set cents. length c = length q"
proof -
  let ?f = "\<lambda>(i, c). and_then (vers c q) (\<lambda>d. Inr (d, i :: nat))"
  from assms obtain ds where ds: "map_raise ?f (enumerate 0 cents) = Inr ds" and cds: "cds = sort ds"
    by (auto simp: centroid_distances_def and_then_def split: sum.splits)
  have each: "\<forall>p \<in> set (enumerate 0 cents). \<forall>y. ?f p = Inr y
                \<longrightarrow> y = (\<lambda>(i, c). (cosine_distance c q, i)) p"
    by (auto simp: and_then_def vers_Inr split: sum.splits)
  from ds each have "ds = map (\<lambda>(i, c). (cosine_distance c q, i)) (enumerate 0 cents)"
    by (rule map_raise_Inr_map)
  with cds show "cds = sort (map (\<lambda>(i, c). (cosine_distance c q, i)) (enumerate 0 cents))"
    by simp
  show "\<forall>c \<in> set cents. length c = length q"
  proof
    fix c assume "c \<in> set cents"
    then obtain i where "i < length cents" "cents ! i = c"
      by (auto simp: in_set_conv_nth)
    then have "(i, c) \<in> set (enumerate 0 cents)"
      by (auto simp: in_set_enumerate_eq)
    with map_raise_Inr_all [OF ds] obtain y where "?f (i, c) = Inr y"
      by blast
    then show "length c = length q"
      by (auto simp: and_then_def vers_Inr split: sum.splits)
  qed
qed

lemma centroid_distances_ok:
  assumes "\<forall>c \<in> set cents. length c = length q"
  shows "centroid_distances cents q
           = Inr (sort (map (\<lambda>(i, c). (cosine_distance c q, i)) (enumerate 0 cents)))"
proof -
  have "\<forall>p \<in> set (enumerate 0 cents).
          (\<lambda>(i, c). and_then (vers c q) (\<lambda>d. Inr (d, i))) p
            = Inr ((\<lambda>(i, c). (cosine_distance c q, i)) p)"
  proof
    fix p assume p: "p \<in> set (enumerate 0 cents)"
    obtain i c where ic: "p = (i, c)" by (cases p)
    with p have "c \<in> set cents"
      by (auto simp: in_set_enumerate_eq)
    with assms have "vers c q = Inr (cosine_distance c q)"
      by (simp add: vers_Inr)
    with ic show "(\<lambda>(i, c). and_then (vers c q) (\<lambda>d. Inr (d, i))) p
            = Inr ((\<lambda>(i, c). (cosine_distance c q, i)) p)"
      by (simp add: and_then_def)
  qed
  then have "map_raise (\<lambda>(i, c). and_then (vers c q) (\<lambda>d. Inr (d, i))) (enumerate 0 cents)
          = Inr (map (\<lambda>(i, c). (cosine_distance c q, i)) (enumerate 0 cents))"
    by (rule map_raise_ok)
  then show ?thesis
    unfolding centroid_distances_def by (simp add: and_then_def)
qed

lemma sorted_map_fst_lex:
  fixes ps :: "(real \<times> nat) list"
  shows "sorted ps \<Longrightarrow> sorted (map fst ps)"
  by (induction ps) (auto simp: less_eq_prod_def)

lemma cluster_order:
  assumes "cds = sort (map (\<lambda>(i, c). (cosine_distance c q, i)) (enumerate 0 cents))"
  shows "sorted (map fst cds)" and "mset (map snd cds) = mset [0..<length cents]"
proof -
  show "sorted (map fst cds)"
    unfolding assms by (rule sorted_map_fst_lex) simp
  have "map snd (map (\<lambda>(i, c). (cosine_distance c q, i)) (enumerate 0 cents))
          = map fst (enumerate 0 cents)"
    by (simp add: split_beta comp_def)
  then have "mset (map snd cds) = mset (map fst (enumerate 0 cents))"
    unfolding assms by (metis mset_map mset_sort)
  then show "mset (map snd cds) = mset [0..<length cents]"
    by (simp only: map_fst_enumerate) simp
qed


text \<open>Ranking: keys are computed once for each record, then the records are sorted stably.\<close>

lemma insort_key_decorate:
  "insort_key fst (g x, x) (map (\<lambda>r. (g r, r)) ys) = map (\<lambda>r. (g r, r)) (insort_key g x ys)"
  by (induction ys) auto

lemma sort_key_decorate:
  "sort_key fst (map (\<lambda>r. (g r, r)) xs) = map (\<lambda>r. (g r, r)) (sort_key g xs)"
  by (induction xs) (simp_all add: insort_key_decorate)

lemma call_Inr: "call f a b = Inr d \<Longrightarrow> d = distance f a b"
  by (simp add: distance_def)

lemma rank_Inr:
  assumes "rank f q records = Inr ranked"
  shows "ranked = sort_key (\<lambda>r. distance f q (fst r)) records"
proof -
  let ?key = "\<lambda>r. and_then (call f q (fst r)) (\<lambda>d. Inr (d, r))"
  from assms obtain keyed where k: "map_raise ?key records = Inr keyed"
    and r: "ranked = map snd (sort_key fst keyed)"
    by (auto simp: rank_def and_then_def split: sum.splits)
  have "\<forall>r \<in> set records. \<forall>y. ?key r = Inr y \<longrightarrow> y = (distance f q (fst r), r)"
    by (auto simp: and_then_def dest: call_Inr split: sum.splits)
  with k have "keyed = map (\<lambda>r. (distance f q (fst r), r)) records"
    by (rule map_raise_Inr_map)
  with r show ?thesis
    by (simp add: sort_key_decorate comp_def)
qed

lemma rank_Inr_calls:
  assumes "rank f q records = Inr ranked"
  shows "\<forall>r \<in> set records. call f q (fst r) = Inr (distance f q (fst r))"
proof
  fix r assume r: "r \<in> set records"
  let ?key = "\<lambda>r. and_then (call f q (fst r)) (\<lambda>d. Inr (d, r))"
  from assms obtain keyed where "map_raise ?key records = Inr keyed"
    by (auto simp: rank_def and_then_def split: sum.splits)
  from map_raise_Inr_all [OF this] r obtain y where "?key r = Inr y"
    by blast
  then obtain d where "call f q (fst r) = Inr d"
    by (cases "call f q (fst r)") (simp_all add: and_then_def)
  then show "call f q (fst r) = Inr (distance f q (fst r))"
    by (simp add: distance_def)
qed

lemma rank_ok:
  assumes "\<forall>r \<in> set records. \<exists>d. call f q (fst r) = Inr d"
  shows "rank f q records = Inr (sort_key (\<lambda>r. distance f q (fst r)) records)"
proof -
  have "\<forall>r \<in> set records. and_then (call f q (fst r)) (\<lambda>d. Inr (d, r))
          = Inr (distance f q (fst r), r)"
    using assms by (auto simp: and_then_def distance_def)
  then have "map_raise (\<lambda>r. and_then (call f q (fst r)) (\<lambda>d. Inr (d, r))) records
          = Inr (map (\<lambda>r. (distance f q (fst r), r)) records)"
    by (rule map_raise_ok)
  then show ?thesis
    unfolding rank_def by (simp add: and_then_def sort_key_decorate comp_def)
qed

lemma search_Inr:
  assumes "search storage q k self = (Inr results, self1)"
  obtains cds records ranked where
    "is_built self"
    and "centroid_distances (centroids self) q = Inr cds"
    and "map_raise (get storage) (fst (gather_candidates (nprobe self) k cds (inverted_lists self)))
           = Inr records"
    and "rank (dist_func self) q records = Inr ranked"
    and "results = slice_to k ranked"
proof -
  from assms have b: "is_built self"
    by (auto simp: search_def split: if_splits)
  with assms obtain cds where c: "centroid_distances (centroids self) q = Inr cds"
    by (cases "centroid_distances (centroids self) q") (auto simp: search_def)
  let ?cand = "fst (gather_candidates (nprobe self) k cds (inverted_lists self))"
  from assms b c obtain records where g: "map_raise (get storage) ?cand = Inr records"
    by (cases "map_raise (get storage) ?cand") (auto simp: search_def split_beta and_then_def)
  from assms b c g obtain ranked where r: "rank (dist_func self) q records = Inr ranked"
    by (cases "rank (dist_func self) q records") (auto simp: search_def split_beta and_then_def)
  from assms b c g r have "results = slice_to k ranked"
    by (auto simp: search_def split_beta and_then_def)
  with b c g r show thesis by (rule that)
qed

text \<open>
  C4. Whatever distance function \<open>f\<close> the index is configured with, a search that returns
  has ordered the clusters by the cosine distance \<open>1 - a\<cdot>b / (\<parallel>a\<parallel>\<parallel>b\<parallel> + 1e-8)\<close> from each
  centroid to the query (ties by cluster number), has gathered its candidates from that
  order alone, and returns the first \<open>k\<close> of the candidates' records sorted stably by \<open>f\<close>
  against the query, ascending.
\<close>

theorem cosine_shortlist_metric_ranking:
  assumes "search storage q k (self\<lparr>dist_func := f\<rparr>) = (Inr results, self1)" and "0 \<le> k"
  shows "\<exists>cds records.
           cds = sort (map (\<lambda>(i, c). (cosine_distance c q, i)) (enumerate 0 (centroids self)))
         \<and> map_raise (get storage)
              (fst (gather_candidates (nprobe self) k cds (inverted_lists self))) = Inr records
         \<and> (\<forall>r \<in> set records. call f q (fst r) = Inr (distance f q (fst r)))
         \<and> results = take (nat k) (sort_key (\<lambda>r. distance f q (fst r)) records)
         \<and> sorted (map (\<lambda>r. distance f q (fst r)) results)"
proof -
  from assms(1) obtain cds records ranked where
    c: "centroid_distances (centroids self) q = Inr cds"
    and g: "map_raise (get storage)
              (fst (gather_candidates (nprobe self) k cds (inverted_lists self))) = Inr records"
    and r: "rank f q records = Inr ranked"
    and res: "results = slice_to k ranked"
    by (rule search_Inr) simp
  let ?g = "\<lambda>r. distance f q (fst r)"
  have cds: "cds = sort (map (\<lambda>(i, c). (cosine_distance c q, i)) (enumerate 0 (centroids self)))"
    using c by (rule centroid_distances_Inr)
  have ranked: "ranked = sort_key ?g records"
    using r by (rule rank_Inr)
  have results: "results = take (nat k) (sort_key ?g records)"
    using res ranked assms(2) by (simp add: slice_to_def)
  have "sorted (map ?g (sort_key ?g records))"
    by simp
  then have "sorted (take (nat k) (map ?g (sort_key ?g records)))"
    by (rule sorted_wrt_take)
  then have "sorted (map ?g results)"
    by (simp add: results take_map)
  moreover have "\<forall>r \<in> set records. call f q (fst r) = Inr (distance f q (fst r))"
    using r by (rule rank_Inr_calls)
  ultimately show ?thesis
    using cds g results by blast
qed

text \<open>The candidate list is the lists of a prefix of the cluster order.\<close>

lemma lists_of_append: "lists_of d (xs @ ys) = lists_of d xs @ lists_of d ys"
  by (simp add: lists_of_def)

text \<open>
  C3. In a built index whose centroid distances to the query are \<open>cds\<close> (ascending), let
  \<open>initial\<close> be the ids in the lists of the \<open>nprobe\<close> nearest clusters. The candidates of
  \<^verbatim>\<open>search\<close> are \<open>initial\<close> followed by the lists of the next \<open>j\<close> clusters in ascending
  order of centroid distance. If \<open>initial\<close> has at least \<open>k\<close> ids then \<open>j = 0\<close>: no further
  cluster is read. If it has fewer, \<open>j\<close> is the first number of further clusters with which
  the candidates reach \<open>2 * k\<close>, or the number of all remaining clusters when that is never
  reached.
\<close>

theorem fallback_rule:
  assumes "is_built self"
    and "centroid_distances (centroids self) q = Inr cds"
    and "0 \<le> nprobe self"
    and "order = map snd cds" and "n = nat (nprobe self)" and "d = inverted_lists self"
    and "initial = lists_of d (take n order)"
  shows "\<exists>j \<le> length (drop n order).
           sorted (map fst cds)
         \<and> mset order = mset [0..<length (centroids self)]
         \<and> fst (gather_candidates (nprobe self) k cds d) = initial @ lists_of d (take j (drop n order))
         \<and> (k \<le> int (length initial) \<longrightarrow> j = 0)
         \<and> (int (length initial) < k \<longrightarrow>
               (j < length (drop n order)
                  \<longrightarrow> k * 2 \<le> int (length (initial @ lists_of d (take j (drop n order)))))
             \<and> (\<forall>i < j. int (length (initial @ lists_of d (take i (drop n order)))) < k * 2))
         \<and> fst (search storage q k self)
             = and_then (map_raise (get storage) (initial @ lists_of d (take j (drop n order))))
                 (\<lambda>records. and_then (rank (dist_func self) q records)
                   (\<lambda>results. Inr (slice_to k results)))"
proof -
  have cds: "cds = sort (map (\<lambda>(i, c). (cosine_distance c q, i)) (enumerate 0 (centroids self)))"
    using assms(2) by (rule centroid_distances_Inr)
  have s1: "sorted (map fst cds)" and s2: "mset order = mset [0..<length (centroids self)]"
    using cluster_order [OF cds] assms(4) by simp_all
  have near: "map snd (slice_to (nprobe self) cds) = take n order"
    and far: "map snd (slice_from (nprobe self) cds) = drop n order"
    using assms(3,4,5) by (simp_all add: slice_to_def slice_from_def take_map drop_map)
  let ?ic = "initial_candidates (nprobe self) cds d"
  have init: "fst ?ic = initial"
    by (simp add: initial_candidates_fst near assms(7) lists_of_def)
  have srch: "fst (search storage q k self)
      = and_then (map_raise (get storage) (fst (gather_candidates (nprobe self) k cds d)))
          (\<lambda>records. and_then (rank (dist_func self) q records)
            (\<lambda>results. Inr (slice_to k results)))"
    using assms(1,2,6) by (simp add: search_def split_beta)
  show ?thesis
  proof (cases "int (length initial) < k")
    case False
    then have "fst (gather_candidates (nprobe self) k cds d) = initial"
      by (simp add: gather_candidates_def split_beta init)
    with False s1 s2 srch show ?thesis
      by (intro exI [of _ 0]) (simp add: lists_of_def)
  next
    case True
    then have g: "gather_candidates (nprobe self) k cds d
                   = extend_candidates k (drop n order) initial (snd ?ic)"
      by (simp add: gather_candidates_def split_beta init far)
    obtain j where j: "j \<le> length (drop n order)"
      and res: "fst (extend_candidates k (drop n order) initial (snd ?ic))
                 = initial @ concat (map (list_of_cluster d) (take j (drop n order)))"
      and stop: "j < length (drop n order) \<longrightarrow>
                   k * 2 \<le> int (length (fst (extend_candidates k (drop n order) initial (snd ?ic))))"
      and before: "\<forall>i. 0 < i \<and> i < j \<longrightarrow>
           int (length (initial @ concat (map (list_of_cluster d) (take i (drop n order))))) < k * 2"
      using extend_candidates_prefix [of "drop n order" k initial "snd ?ic"]
      by (auto simp: initial_candidates_lists)
    have all_before: "\<forall>i < j. int (length (initial @ lists_of d (take i (drop n order)))) < k * 2"
    proof (intro allI impI)
      fix i assume "i < j"
      show "int (length (initial @ lists_of d (take i (drop n order)))) < k * 2"
      proof (cases "i = 0")
        case True
        with \<open>int (length initial) < k\<close> show ?thesis by (simp add: lists_of_def)
      next
        case False
        with \<open>i < j\<close> before show ?thesis by (simp add: lists_of_def)
      qed
    qed
    from j res stop all_before True s1 s2 srch g show ?thesis
      by (intro exI [of _ j]) (simp add: lists_of_def)
  qed
qed


text \<open>With every cluster probed, the candidates are the ids of the snapshot, each once.\<close>

lemma mset_lists_perm:
  "mset xs = mset ys \<Longrightarrow> mset (lists_of d xs) = mset (lists_of d ys)"
proof -
  assume eq: "mset xs = mset ys"
  have "mset (lists_of d zs) = sum_mset (image_mset (\<lambda>c. mset (list_of_cluster d c)) (mset zs))" for zs
    by (induction zs) (simp_all add: lists_of_def)
  with eq show ?thesis by simp
qed

lemma lists_of_keys:
  "distinct (keys d) \<Longrightarrow> lists_of d (keys d) = concat (map snd d)"
proof (induction d)
  case Nil
  show ?case by (simp add: lists_of_def keys_def)
next
  case (Cons p d)
  obtain c l where p: "p = (c, l)" by (cases p)
  from Cons.prems p have fresh: "c \<notin> set (keys d)" and dist: "distinct (keys d)"
    by (simp_all add: keys_def)
  have rest: "map (list_of_cluster ((c, l) # d)) (keys d) = map (list_of_cluster d) (keys d)"
    using fresh by (auto simp: list_of_cluster_def)
  have ks: "keys ((c, l) # d) = c # keys d"
    by (simp add: keys_def)
  have here: "list_of_cluster ((c, l) # d) c = l"
    by (simp add: list_of_cluster_def)
  have "lists_of (p # d) (keys (p # d)) = l @ lists_of d (keys d)"
    unfolding p lists_of_def ks by (simp only: list.map concat.simps here rest)
  with Cons.IH [OF dist] p show ?case
    by simp
qed

lemma lists_of_empty:
  "\<forall>c \<in> set cs. c \<notin> set (keys d) \<Longrightarrow> lists_of d cs = []"
  by (induction cs) (auto simp: lists_of_def list_of_cluster_def keys_def map_of_eq_None_iff [THEN iffD2])

lemma lists_of_all_clusters:
  assumes "distinct (keys d)" and "\<forall>c \<in> set (keys d). c < n"
  shows "mset (lists_of d [0..<n]) = mset (concat (map snd d))"
proof -
  let ?in = "filter (\<lambda>c. c \<in> set (keys d)) [0..<n]"
  let ?out = "filter (\<lambda>c. c \<notin> set (keys d)) [0..<n]"
  have "mset [0..<n] = mset ?in + mset ?out"
    by (simp only: mset_filter) (rule multiset_partition)
  then have "mset [0..<n] = mset (?in @ ?out)"
    by simp
  then have "mset (lists_of d [0..<n]) = mset (lists_of d (?in @ ?out))"
    by (rule mset_lists_perm)
  also have "\<dots> = mset (lists_of d ?in)"
    by (simp add: lists_of_append lists_of_empty)
  also have "mset ?in = mset (keys d)"
  proof -
    have "set ?in = set (keys d)"
      using assms(2) by auto
    moreover have "distinct ?in" by simp
    ultimately show ?thesis
      using assms(1) by (simp only: set_eq_iff_mset_eq_distinct)
  qed
  then have "mset (lists_of d ?in) = mset (lists_of d (keys d))"
    by (rule mset_lists_perm)
  also have "\<dots> = mset (concat (map snd d))"
    using assms(1) by (simp add: lists_of_keys)
  finally show ?thesis .
qed


lemma get_all_items_members:
  "get_all_items ms vs = Inr out \<Longrightarrow> (i, v, m) \<in> set out \<Longrightarrow>
     (i, v) \<in> set vs \<and> dict_get ms i = Inr m"
proof (induction vs arbitrary: out)
  case Nil
  then show ?case by simp
next
  case (Cons p vs)
  obtain key w where p: "p = (key, w)" by (cases p)
  from Cons.prems(1) p obtain m0 rest where m0: "dict_get ms key = Inr m0"
    and rest: "get_all_items ms vs = Inr rest" and out: "out = (key, w, m0) # rest"
    by (auto split: sum.splits)
  show ?case
  proof (cases "(i, v, m) = (key, w, m0)")
    case True
    with m0 p show ?thesis by simp
  next
    case False
    with Cons.prems(2) out have "(i, v, m) \<in> set rest" by auto
    with Cons.IH [OF rest] show ?thesis by simp
  qed
qed

lemma get_of_snapshot:
  assumes "get_all storage = Inr all_data" and "distinct (keys (vectors storage))"
    and "(i, v, m) \<in> set all_data"
  shows "get storage i = Inr (v, m)"
proof -
  from assms(1,3) have mem: "(i, v) \<in> set (vectors storage)" and md: "dict_get (metadatas storage) i = Inr m"
    using get_all_items_members [of "metadatas storage" "vectors storage" all_data i v m]
    by (simp_all add: get_all_def)
  from mem assms(2) have "map_of (vectors storage) i = Some v"
    by (simp add: keys_def)
  with md show ?thesis
    by (simp add: get_def dict_get_def)
qed

lemma call_ok: "length a = length b \<Longrightarrow> \<exists>d. call f a b = Inr d"
  by (cases f) (simp_all add: vers_def euclidean_def neg_dot_def np_dot_def np_sub_def and_then_def)

lemma map_sort_key: "map g (sort_key g xs) = sort (map g xs)"
  by (rule properties_for_sort [symmetric]) simp_all

lemma sort_key_perm_keys:
  "mset xs = mset ys \<Longrightarrow> map g (sort_key g xs) = map g (sort_key g ys)"
proof -
  assume "mset xs = mset ys"
  then have "mset (map g xs) = mset (map g ys)" by simp
  then have "sort (map g xs) = sort (map g ys)"
    by (metis properties_for_sort sorted_sort mset_sort)
  then show ?thesis by (simp add: map_sort_key)
qed


lemma mset_take_subset: "mset (take n xs) \<subseteq># mset xs"
proof -
  have "mset xs = mset (take n xs) + mset (drop n xs)"
    by (simp flip: mset_append)
  then show ?thesis by simp
qed

lemma exhaustive_candidates:
  assumes "build fit_predict storage self0 = (Inr printed, self)"
    and "distinct (keys (vectors storage))"
    and "labels_every_row fit_predict (map snd (vectors storage))"
    and "labels_in_range fit_predict (map snd (vectors storage))"
    and "int (length (centroids self)) \<le> nprobe self"
    and "centroid_distances (centroids self) q = Inr cds"
  shows "mset (fst (gather_candidates (nprobe self) k cds (inverted_lists self)))
           = mset (keys (vectors storage))"
proof -
  from assms(1) obtain all_data cents preds cm im where
    a: "get_all storage = Inr all_data"
    and km: "run_kmeans fit_predict (map (\<lambda>(i, v, m). v) all_data) = Inr (cents, preds)"
    and asg: "assign_all (zip (map fst all_data) preds) ([], []) = (cm, im)"
    and s1: "self = self0\<lparr>inverted_lists := cm, assignments := im, centroids := cents, is_built := True\<rparr>"
    by (rule build_success)
  from a have ids: "map fst all_data = keys (vectors storage)"
    and vecs: "map (\<lambda>(i, v, m). v) all_data = map snd (vectors storage)"
    using get_all_items_keys [of "metadatas storage" "vectors storage" all_data]
    by (simp_all add: get_all_def)
  have "length all_data = length (vectors storage)"
    using arg_cong [OF vecs, of length] by simp
  with assms(3,4) km vecs have len: "length preds = length all_data"
    and rng: "list_all (\<lambda>c. c < length cents) preds"
    by (simp_all add: labels_every_row_def labels_in_range_def)
  from len have seconds: "map snd (zip (map fst all_data) preds) = preds"
    by simp
  have "length preds = length (keys (vectors storage))"
    using len ids by (metis length_map)
  then have firsts: "map fst (zip (keys (vectors storage)) preds) = keys (vectors storage)"
    by simp
  have "mset (concat (map snd cm))
          = mset (concat (map snd ([] :: (nat, int list) dict)))
            + mset (map fst (zip (keys (vectors storage)) preds))"
    using asg [unfolded ids] by (rule assign_all_lists)
  then have lists: "mset (concat (map snd cm)) = mset (keys (vectors storage))"
    unfolding firsts by simp
  have dk: "distinct (keys cm)"
    using asg by (rule assign_all_distinct_keys) (simp add: keys_def)
  have "set (keys cm) = set preds"
    using assign_all_keys [OF asg] seconds by (simp add: keys_def)
  with rng have below: "\<forall>c \<in> set (keys cm). c < length cents"
    by (simp add: list_all_iff)
  have cds: "cds = sort (map (\<lambda>(i, c). (cosine_distance c q, i)) (enumerate 0 cents))"
    using assms(6) s1 centroid_distances_Inr(1) [of cents q cds] by simp
  have order: "mset (map snd cds) = mset [0..<length cents]"
    using cds by (rule cluster_order)
  have "length cds = length cents"
    using cds by simp
  with assms(5) s1 have whole: "slice_to (nprobe self) cds = cds"
    and none: "slice_from (nprobe self) cds = []"
    by (simp_all add: slice_to_def slice_from_def)
  have "fst (gather_candidates (nprobe self) k cds cm) = lists_of cm (map snd cds)"
    by (simp add: gather_candidates_def split_beta initial_candidates_fst whole none lists_of_def)
  moreover have "mset (lists_of cm (map snd cds)) = mset (lists_of cm [0..<length cents])"
    using order by (rule mset_lists_perm)
  moreover have "mset (lists_of cm [0..<length cents]) = mset (concat (map snd cm))"
    using dk below by (rule lists_of_all_clusters)
  ultimately show ?thesis
    using lists s1 by simp
qed


text \<open>
  C2, as the code has it. Take an index just built from the storage that is searched (the
  storage unchanged since), a clustering that labelled every row with a cluster below the
  number of centroids, \<open>nprobe\<close> at least the number of centroids, \<open>k \<ge> 1\<close>, and a query of
  the length of the stored vectors and the centroids. Then \<^verbatim>\<open>search\<close> returns, and so does
  the brute-force scan; both return \<open>min k n\<close> of the \<open>n\<close> stored records, and the
  distances of the records returned are the same list for both, the \<open>k\<close> smallest
  distances in the store. When no two stored records are at the same distance from the
  query, the two results are the same records in the same order.
\<close>

theorem exhaustive_search_matches_scan:
  assumes "build fit_predict storage self0 = (Inr printed, self)"
    and "distinct (keys (vectors storage))"
    and "labels_every_row fit_predict (map snd (vectors storage))"
    and "labels_in_range fit_predict (map snd (vectors storage))"
    and "int (length (centroids self)) \<le> nprobe self"
    and "1 \<le> k"
    and "\<forall>v \<in> set (map snd (vectors storage)). length v = length q"
    and "\<forall>c \<in> set (centroids self). length c = length q"
  shows "\<exists>results scanned all_data.
           fst (search storage q k self) = Inr results
         \<and> brute_force_scan (dist_func self) storage q k = Inr scanned
         \<and> get_all storage = Inr all_data
         \<and> length results = min (nat k) (length all_data)
         \<and> mset results \<subseteq># mset (map (\<lambda>(i, v, m). (v, m)) all_data)
         \<and> (\<forall>r \<in> set (map (\<lambda>(i, v, m). (v, m)) all_data).
                call (dist_func self) q (fst r) = Inr (distance (dist_func self) q (fst r)))
         \<and> map (\<lambda>r. distance (dist_func self) q (fst r)) results
             = map (\<lambda>r. distance (dist_func self) q (fst r)) scanned
         \<and> (inj_on (\<lambda>r. distance (dist_func self) q (fst r))
                     (set (map (\<lambda>(i, v, m). (v, m)) all_data))
               \<longrightarrow> results = scanned)"
proof -
  let ?f = "dist_func self"
  let ?g = "\<lambda>r. distance ?f q (fst r)"
  let ?rec = "\<lambda>i. projr (get storage i)"
  from assms(1) obtain all_data where a: "get_all storage = Inr all_data"
    and built: "is_built self"
    by (rule build_success) simp
  let ?stored = "map (\<lambda>(i, v, m). (v, m)) all_data"
  from a have ids: "map fst all_data = keys (vectors storage)"
    using get_all_items_keys [of "metadatas storage" "vectors storage" all_data]
    by (simp add: get_all_def)
  have rec: "get storage i = Inr (v, m)" if "(i, v, m) \<in> set all_data" for i v m
    using a assms(2) that by (rule get_of_snapshot)
  have stored: "map ?rec (keys (vectors storage)) = ?stored"
  proof -
    have "map ?rec (map fst all_data) = ?stored"
      by (auto simp: rec)
    then show ?thesis by (simp only: ids)
  qed
  have dims: "length (fst r) = length q" if "r \<in> set ?stored" for r
  proof -
    from that obtain i v m where r: "r = (v, m)" and mem: "(i, v, m) \<in> set all_data"
      by auto
    from a mem have "(i, v) \<in> set (vectors storage)"
      using get_all_items_members [of "metadatas storage" "vectors storage" all_data i v m]
      by (simp add: get_all_def)
    with assms(7) r show ?thesis by force
  qed
  obtain cds where c: "centroid_distances (centroids self) q = Inr cds"
    using centroid_distances_ok [OF assms(8)] by blast
  obtain cand d where g: "gather_candidates (nprobe self) k cds (inverted_lists self) = (cand, d)"
    by (cases "gather_candidates (nprobe self) k cds (inverted_lists self)")
  have perm: "mset cand = mset (keys (vectors storage))"
    using exhaustive_candidates [OF assms(1-5) c, of k] g by simp
  then have same_set: "set cand = set (keys (vectors storage))"
    by (rule mset_eq_setD)
  have "\<forall>i \<in> set cand. get storage i = Inr (?rec i)"
  proof
    fix i assume "i \<in> set cand"
    with same_set ids have "i \<in> fst ` set all_data"
      by (metis set_map)
    then obtain v m where "(i, v, m) \<in> set all_data" by force
    then show "get storage i = Inr (?rec i)" by (simp add: rec)
  qed
  then have recs: "map_raise (get storage) cand = Inr (map ?rec cand)"
    by (rule map_raise_ok)
  have mrec: "mset (map ?rec cand) = mset ?stored"
    using perm stored by (metis mset_map)
  then have srec: "set (map ?rec cand) = set ?stored"
    by (rule mset_eq_setD)
  have r1: "rank ?f q (map ?rec cand) = Inr (sort_key ?g (map ?rec cand))"
  proof (rule rank_ok, rule ballI)
    fix r assume "r \<in> set (map ?rec cand)"
    with srec have "length q = length (fst r)" by (simp add: dims)
    then show "\<exists>d. call ?f q (fst r) = Inr d" by (rule call_ok)
  qed
  have r2: "rank ?f q ?stored = Inr (sort_key ?g ?stored)"
  proof (rule rank_ok, rule ballI)
    fix r assume "r \<in> set ?stored"
    then have "length q = length (fst r)" by (simp add: dims)
    then show "\<exists>d. call ?f q (fst r) = Inr d" by (rule call_ok)
  qed
  let ?results = "take (nat k) (sort_key ?g (map ?rec cand))"
  let ?scanned = "take (nat k) (sort_key ?g ?stored)"
  have sl: "slice_to k xs = take (nat k) xs" for xs :: "(vector \<times> json) list"
    using assms(6) by (simp add: slice_to_def)
  have p1: "fst (search storage q k self) = Inr ?results"
    using search_steps [OF built c g recs r1] by (simp add: sl)
  have p2: "brute_force_scan ?f storage q k = Inr ?scanned"
    unfolding brute_force_scan_def by (simp only: a and_then_def sum.case r2 sl)
  have "length cand = length (keys (vectors storage))"
    using perm by (rule mset_eq_length)
  also have "\<dots> = length all_data"
    using ids by (metis length_map)
  finally have p3: "length ?results = min (nat k) (length all_data)"
    by (simp add: min.commute)
  have "mset ?results \<subseteq># mset (sort_key ?g (map ?rec cand))"
    by (rule mset_take_subset)
  then have p4: "mset ?results \<subseteq># mset ?stored"
    using mrec by simp
  have keys_eq: "map ?g (sort_key ?g (map ?rec cand)) = map ?g (sort_key ?g ?stored)"
    using mrec by (rule sort_key_perm_keys)
  then have p5: "map ?g ?results = map ?g ?scanned"
    by (simp only: take_map [symmetric])
  have p6: "inj_on ?g (set ?stored) \<longrightarrow> ?results = ?scanned"
  proof
    assume "inj_on ?g (set ?stored)"
    then have "inj_on ?g (set (sort_key ?g (map ?rec cand)) \<union> set (sort_key ?g ?stored))"
      using srec by simp
    then have "sort_key ?g (map ?rec cand) = sort_key ?g ?stored"
      using keys_eq by (simp only: inj_on_map_eq_map)
    then show "?results = ?scanned" by simp
  qed
  have p7: "\<forall>r \<in> set ?stored. call ?f q (fst r) = Inr (?g r)"
    using r2 by (rule rank_Inr_calls)
  from p1 p2 a p3 p4 p5 p6 p7 show ?thesis by blast
qed


text \<open>The example searches.\<close>

lemma init_default: "IVFIndex_init 10 ''cosine'' = Inr fresh_index"
  by (simp add: IVFIndex_init_def func_map_def dict_get_def and_then_def fresh_index_def)

lemma build_probe_one:
  "IVFIndex_init 1 ''dot'' = Inr (fresh_index\<lparr>nprobe := 1, distance_fn := ''dot'', dist_func := Neg_dot\<rparr>)
   \<and> build by_axis ten_records (fresh_index\<lparr>nprobe := 1, distance_fn := ''dot'', dist_func := Neg_dot\<rparr>)
       = (Inr (5, 5), probe_one_index)"
  by (simp add: IVFIndex_init_def func_map_def)
     (simp add: build_def get_all_def ten_records_def fresh_index_def dict_get_def
        build_index_def and_then_def run_kmeans_def by_axis_def dd_append_def dd_get_def
        list_sizes_def probe_one_index_def)

lemma build_two_records:
  "build round_robin two_records fresh_index = (Inr (2, 2), two_records_index)"
  by (simp add: build_def get_all_def two_records_def fresh_index_def dict_get_def
        build_index_def and_then_def run_kmeans_def round_robin_def dd_append_def dd_get_def
        list_sizes_def two_records_index_def)

lemma add_to_one_record: "add [- 1] (JStr ''b'') one_record = (Inr 1, two_records)"
  by (simp add: add_def one_record_def two_records_def)

lemma scan_two_records: "brute_force_scan Vers two_records [1] 1 = Inr [([1], JStr ''a'')]"
  by (simp add: brute_force_scan_def get_all_def two_records_def dict_get_def and_then_def
        rank_def vers_def np_dot_def np_linalg_norm_def slice_to_def)

lemma scan_two_records_far: "brute_force_scan Vers two_records [- 1] 1 = Inr [([- 1], JStr ''b'')]"
  by (simp add: brute_force_scan_def get_all_def two_records_def dict_get_def and_then_def
        rank_def vers_def np_dot_def np_linalg_norm_def slice_to_def)

lemma stale_search:
  "search two_records [- 1] 1 one_record_index = (Inr [([1], JStr ''a'')], one_record_index)"
proof -
  have b: "is_built one_record_index"
    by (simp add: one_record_index_def)
  have c: "centroid_distances (centroids one_record_index) [- 1]
             = Inr [(1 + 1 / (1 + 1 / 10 ^ 8), 0)]"
    by (simp add: centroid_distances_def one_record_index_def vers_def np_dot_def
          np_linalg_norm_def and_then_def enumerate_eq_zip)
  have g: "gather_candidates (nprobe one_record_index) 1 [(x, 0)] (inverted_lists one_record_index)
             = ([0], inverted_lists one_record_index)" for x :: real
    by (simp add: gather_candidates_def initial_candidates_def slice_to_def slice_from_def
          dd_get_def one_record_index_def)
  have r: "map_raise (get two_records) [0] = Inr [([1], JStr ''a'')]"
    by (simp add: get_def dict_get_def two_records_def and_then_def)
  have k: "rank (dist_func one_record_index) [- 1] [([1], JStr ''a'')] = Inr [([1], JStr ''a'')]"
    by (simp add: one_record_index_def rank_def vers_def np_dot_def and_then_def)
  show ?thesis
    using search_steps [OF b c g r k] by (simp add: slice_to_def)
qed

lemma cd_probe_one:
  "centroid_distances (centroids probe_one_index) [0, 2]
     = Inr [(1 - 2 / (2 + 1 / 10 ^ 8), Suc 0), (1, 0)]"
  by (simp add: centroid_distances_def probe_one_index_def vers_def np_dot_def np_linalg_norm_def
        and_then_def enumerate_eq_zip)

lemma gather_probe_one_6:
  "gather_candidates (nprobe probe_one_index) 6 [(x, Suc 0), (y, 0)] (inverted_lists probe_one_index)
     = ([0, 1, 2, 3, 4, 5, 6, 7, 8, 9], inverted_lists probe_one_index)"
  by (simp add: gather_candidates_def initial_candidates_def slice_to_def slice_from_def
        dd_get_def probe_one_index_def)

lemma gather_probe_one_2:
  "gather_candidates (nprobe probe_one_index) 2 [(x, Suc 0), (y, 0)] (inverted_lists probe_one_index)
     = ([0, 1, 2, 3, 4], inverted_lists probe_one_index)"
  by (simp add: gather_candidates_def initial_candidates_def slice_to_def slice_from_def
        dd_get_def probe_one_index_def)

lemma search_probe_one:
  "search ten_records [0, 2] 2 probe_one_index
     = (Inr [([0, 1], JStr ''a''), ([0, 1], JStr ''b'')], probe_one_index)"
proof -
  have b: "is_built probe_one_index"
    by (simp add: probe_one_index_def)
  have r: "map_raise (get ten_records) [0, 1, 2, 3, 4]
             = Inr [([0, 1], JStr ''a''), ([0, 1], JStr ''b''), ([0, 1], JStr ''c''),
                    ([0, 1], JStr ''d''), ([0, 1], JStr ''e'')]"
    by (simp add: get_def dict_get_def ten_records_def and_then_def)
  have k: "rank (dist_func probe_one_index) [0, 2]
                  [([0, 1], JStr ''a''), ([0, 1], JStr ''b''), ([0, 1], JStr ''c''),
                    ([0, 1], JStr ''d''), ([0, 1], JStr ''e'')]
             = Inr [([0, 1], JStr ''a''), ([0, 1], JStr ''b''), ([0, 1], JStr ''c''),
                    ([0, 1], JStr ''d''), ([0, 1], JStr ''e'')]"
    by (simp add: probe_one_index_def rank_def neg_dot_def np_dot_def and_then_def)
  show ?thesis
    using search_steps [OF b cd_probe_one gather_probe_one_2 r k] by (simp add: slice_to_def)
qed


theorem exhaustive_search_matches_scan_witness:
  "build round_robin two_records fresh_index = (Inr (2, 2), two_records_index)
   \<and> int (length (centroids two_records_index)) \<le> nprobe two_records_index
   \<and> inj_on (\<lambda>r. distance Vers [1] (fst r)) (set [([1], JStr ''a''), ([- 1], JStr ''b'')])
   \<and> fst (search two_records [1] 1 two_records_index) = Inr [([1], JStr ''a'')]
   \<and> brute_force_scan Vers two_records [1] 1 = Inr [([1], JStr ''a'')]"
proof -
  have h2: "distinct (keys (vectors two_records))"
    by (simp add: two_records_def keys_def)
  have h3: "labels_every_row round_robin (map snd (vectors two_records))"
    by (simp add: labels_every_row_def run_kmeans_def round_robin_def two_records_def)
  have h4: "labels_in_range round_robin (map snd (vectors two_records))"
    by (simp add: labels_in_range_def run_kmeans_def round_robin_def two_records_def)
  have h5: "int (length (centroids two_records_index)) \<le> nprobe two_records_index"
    by (simp add: two_records_index_def)
  have h6: "(1::int) \<le> 1" by simp
  have h7: "\<forall>v \<in> set (map snd (vectors two_records)). length v = length [1::real]"
    by (simp add: two_records_def)
  have h8: "\<forall>c \<in> set (centroids two_records_index). length c = length [1::real]"
    by (simp add: two_records_index_def)
  have f: "dist_func two_records_index = Vers"
    by (simp add: two_records_index_def)
  have all: "get_all two_records = Inr [(0, [1], JStr ''a''), (1, [- 1], JStr ''b'')]"
    by (simp add: get_all_def two_records_def dict_get_def)
  have inj: "inj_on (\<lambda>r. distance Vers [1] (fst r)) (set [([1], JStr ''a''), ([- 1], JStr ''b'')])"
    by (simp add: distance_def vers_def np_dot_def np_linalg_norm_def and_then_def)
  from exhaustive_search_matches_scan [OF build_two_records h2 h3 h4 h5 h6 h7 h8]
  obtain results scanned all_data where
    r: "fst (search two_records [1] 1 two_records_index) = Inr results"
    and s: "brute_force_scan (dist_func two_records_index) two_records [1] 1 = Inr scanned"
    and a: "get_all two_records = Inr all_data"
    and e: "inj_on (\<lambda>r. distance (dist_func two_records_index) [1] (fst r))
                   (set (map (\<lambda>(i, v, m). (v, m)) all_data)) \<longrightarrow> results = scanned"
    by blast
  from a all have "all_data = [(0, [1], JStr ''a''), (1, [- 1], JStr ''b'')]"
    by simp
  with e inj f have "results = scanned" by simp
  moreover from s f have "scanned = [([1], JStr ''a'')]"
    by (simp add: scan_two_records)
  ultimately show ?thesis
    using r inj h5 build_two_records scan_two_records by simp
qed

text \<open>
  Two built indexes with \<open>nprobe\<close> above the number of clusters where \<^verbatim>\<open>search\<close> and the
  scan return different records for \<open>k = 1\<close>. In the first the index is fresh and the query
  is at the same cosine distance from every record: the scan returns the record of id 0,
  first in storage order, and \<^verbatim>\<open>search\<close> the record of id 5, first in the list of cluster 0.
  In the second a vector was added to the storage after the build: \<^verbatim>\<open>search\<close> does not see
  it, although it is the nearest.
\<close>

theorem exhaustive_search_counterexample:
  "build by_axis ten_records fresh_index = (Inr (5, 5), by_axis_index)
   \<and> int (length (centroids by_axis_index)) \<le> nprobe by_axis_index
   \<and> fst (search ten_records [1, 1] 1 by_axis_index) = Inr [([1, 0], JStr ''f'')]
   \<and> brute_force_scan (dist_func by_axis_index) ten_records [1, 1] 1 = Inr [([0, 1], JStr ''a'')]
   \<and> set [([1, 0], JStr ''f'')] \<noteq> set [([0 :: real, 1 :: real], JStr ''a'')]
   \<and> build round_robin one_record fresh_index = (Inr (1, 1), one_record_index)
   \<and> add [- 1] (JStr ''b'') one_record = (Inr 1, two_records)
   \<and> int (length (centroids one_record_index)) \<le> nprobe one_record_index
   \<and> fst (search two_records [- 1] 1 one_record_index) = Inr [([1], JStr ''a'')]
   \<and> brute_force_scan (dist_func one_record_index) two_records [- 1] 1 = Inr [([- 1], JStr ''b'')]"
proof -
  have f1: "dist_func by_axis_index = Vers" and n1: "int (length (centroids by_axis_index)) \<le> nprobe by_axis_index"
    by (simp_all add: by_axis_index_def)
  have f2: "dist_func one_record_index = Vers" and n2: "int (length (centroids one_record_index)) \<le> nprobe one_record_index"
    by (simp_all add: one_record_index_def)
  show ?thesis
    by (simp add: build_by_axis build_one_record tie_search tie_brute stale_search
          scan_two_records_far add_to_one_record f1 f2 n1 n2)
qed

theorem fallback_rule_witness:
  "is_built probe_one_index
   \<and> centroid_distances (centroids probe_one_index) [0, 2]
        = Inr [(1 - 2 / (2 + 1 / 10 ^ 8), Suc 0), (1, 0)]
   \<and> 0 \<le> nprobe probe_one_index
   \<and> fst (gather_candidates (nprobe probe_one_index) 6
             [(1 - 2 / (2 + 1 / 10 ^ 8), Suc 0), (1, 0)] (inverted_lists probe_one_index))
        = [0, 1, 2, 3, 4, 5, 6, 7, 8, 9]
   \<and> (\<exists>j \<le> length (drop (Suc 0) [Suc 0, 0]).
         fst (gather_candidates (nprobe probe_one_index) 6
                [(1 - 2 / (2 + 1 / 10 ^ 8), Suc 0), (1, 0)] (inverted_lists probe_one_index))
           = [0, 1, 2, 3, 4] @ lists_of (inverted_lists probe_one_index) (take j (drop (Suc 0) [Suc 0, 0]))
       \<and> (\<forall>i < j. int (length ([0, 1, 2, 3, 4]
               @ lists_of (inverted_lists probe_one_index) (take i (drop (Suc 0) [Suc 0, 0])))) < 6 * 2))"
proof -
  let ?cds = "[(1 - 2 / (2 + 1 / 10 ^ 8), Suc 0), (1, 0)] :: (real \<times> nat) list"
  have b: "is_built probe_one_index" and n: "0 \<le> nprobe probe_one_index"
    by (simp_all add: probe_one_index_def)
  have o: "[Suc 0, 0] = map snd ?cds" and m: "Suc 0 = nat (nprobe probe_one_index)"
    by (simp_all add: probe_one_index_def)
  have i: "[0, 1, 2, 3, 4] = lists_of (inverted_lists probe_one_index) (take (Suc 0) [Suc 0, 0])"
    by (simp add: lists_of_def list_of_cluster_def probe_one_index_def)
  from fallback_rule [OF b cd_probe_one n o m refl i, of 6 ten_records]
  obtain j where "j \<le> length (drop (Suc 0) [Suc 0, 0 :: nat])"
    and "fst (gather_candidates (nprobe probe_one_index) 6 ?cds (inverted_lists probe_one_index))
           = [0, 1, 2, 3, 4] @ lists_of (inverted_lists probe_one_index) (take j (drop (Suc 0) [Suc 0, 0]))"
    and "\<forall>i < j. int (length ([0, 1, 2, 3, 4]
               @ lists_of (inverted_lists probe_one_index) (take i (drop (Suc 0) [Suc 0, 0])))) < 6 * 2"
    by auto
  then show ?thesis
    using b n cd_probe_one gather_probe_one_6 [of "1 - 2 / (2 + 1 / 10 ^ 8)" 1] by auto
qed

theorem cosine_shortlist_metric_ranking_witness:
  "search ten_records [0, 2] 2 (probe_one_index\<lparr>dist_func := Neg_dot\<rparr>)
     = (Inr [([0, 1], JStr ''a''), ([0, 1], JStr ''b'')], probe_one_index)
   \<and> (\<exists>cds records.
           cds = sort (map (\<lambda>(i, c). (cosine_distance c [0, 2], i))
                        (enumerate 0 (centroids probe_one_index)))
         \<and> map_raise (get ten_records)
              (fst (gather_candidates (nprobe probe_one_index) 2 cds
                      (inverted_lists probe_one_index))) = Inr records
         \<and> [([0, 1], JStr ''a''), ([0, 1], JStr ''b'')]
             = take (nat 2) (sort_key (\<lambda>r. distance Neg_dot [0, 2] (fst r)) records)
         \<and> sorted (map (\<lambda>r. distance Neg_dot [0, 2] (fst r))
                     [([0, 1], JStr ''a''), ([0, 1], JStr ''b'')]))"
proof -
  have same: "probe_one_index\<lparr>dist_func := Neg_dot\<rparr> = probe_one_index"
    by (simp add: probe_one_index_def)
  have s: "search ten_records [0, 2] 2 (probe_one_index\<lparr>dist_func := Neg_dot\<rparr>)
     = (Inr [([0, 1], JStr ''a''), ([0, 1], JStr ''b'')], probe_one_index)"
    by (simp only: same search_probe_one)
  have k: "(0::int) \<le> 2" by simp
  show ?thesis
    using s cosine_shortlist_metric_ranking [OF s k] by blast
qed

subsection \<open>Bulk insertion\<close>

text \<open>The storage comes out of \<^verbatim>\<open>add_vectors_bulk\<close> as it went in, whatever the arguments.\<close>

lemma add_vectors_bulk_storage:
  "fst (snd (add_vectors_bulk fit_predict vecs metadata_list storage self)) = storage"
  by (simp add: add_vectors_bulk_def split: prod.splits sum.splits)

text \<open>
  C1. The claim is that \<^verbatim>\<open>add_vectors_bulk\<close> adds each pair to the storage with \<^verbatim>\<open>add\<close>,
  in input order, returns the ids of those calls and rebuilds. On a storage with one record
  and one new pair the code returns the pair itself and leaves the storage with its one
  record, where adding the pair gives id 1 and a storage of two records.
\<close>

theorem add_vectors_bulk_adds_nothing:
  "add_vectors_bulk round_robin [[2]] [JStr ''b''] one_record fresh_index
     = (Inr [([2], JStr ''b'')], one_record, one_record_index)
   \<and> add_each [([2], JStr ''b'')] one_record
     = (Inr [1], \<lparr>dimension = 1, vectors = [(0, [1]), (1, [2])],
                  metadatas = [(0, JStr ''a''), (1, JStr ''b'')], next_id = 2\<rparr>)"
  by (simp add: add_vectors_bulk_def build_one_record zip_cycle_def)
     (simp add: add_def one_record_def)

end
